theory Spec2Isabelle
  imports Main "HOL-Library.AList" "HOL-Library.Multiset"
begin

section \<open>The storage layer of the token optimizer\<close>

text \<open>
  The theory embeds the two storage services of the application: the bounded cache with
  time-based expiry (class \<open>SimpleCache\<close> of the cache service) and the history store of
  saved comparisons (the history service). Both persist through \<open>localStorage\<close>.

  Conventions of the embedding. The state of \<open>localStorage\<close> is passed explicitly. An
  exception is a value: an operation that may throw returns \<open>exn + 'a\<close> or, when it returns
  nothing, \<open>exn option\<close> (\<open>None\<close> for a normal return), together with the state it leaves,
  and every \<open>try\<close>/\<open>catch\<close> of the source is a case distinction. Every reading of
  \<open>Date.now()\<close> inside one call yields the argument \<open>now\<close> of that call. Timestamps and
  durations are integers (milliseconds). A JavaScript \<open>Map\<close> is an association list in
  insertion order: \<open>AList.update\<close> overwrites in place or appends, as \<open>Map.set\<close> does, and
  \<open>AList.delete\<close> removes the key.
\<close>

subsection \<open>The adapter\<close>

text \<open>
  An exception is a \<open>DOMException\<close> with its code and name, or another error given by its
  name. \<open>localStorage\<close> holds its items in insertion order. When it is not \<open>available\<close>
  every access throws a \<open>SecurityError\<close>. Otherwise the \<open>n\<close>-th call of \<open>setItem\<close> is
  answered by \<open>policy n\<close>: \<open>None\<close> accepts the write, \<open>Some e\<close> throws \<open>e\<close> and stores
  nothing; \<open>writes\<close> counts the calls made so far. The values are of any type \<open>'v\<close>: each
  service stores its own representation of a JSON text.
\<close>

datatype exn = DOMException nat string | OtherError string

definition SecurityError :: exn where
  "SecurityError = DOMException 18 ''SecurityError''"

definition QuotaExceededError :: exn where
  "QuotaExceededError = DOMException 22 ''QuotaExceededError''"

record 'v localStorage =
  items :: "(string \<times> 'v) list"
  available :: bool
  policy :: "nat \<Rightarrow> exn option"
  writes :: nat

definition getItem :: "'v localStorage \<Rightarrow> string \<Rightarrow> exn + 'v option" where
  "getItem st k = (if available st then Inr (map_of (items st) k) else Inl SecurityError)"

definition setItem :: "'v localStorage \<Rightarrow> string \<Rightarrow> 'v \<Rightarrow> exn option \<times> 'v localStorage" where
  "setItem st k v =
     (if \<not> available st then (Some SecurityError, st)
      else (case policy st (writes st) of
              None \<Rightarrow> (None, st\<lparr>items := AList.update k v (items st), writes := Suc (writes st)\<rparr>)
            | Some e \<Rightarrow> (Some e, st\<lparr>writes := Suc (writes st)\<rparr>)))"

definition removeItem :: "'v localStorage \<Rightarrow> string \<Rightarrow> exn option \<times> 'v localStorage" where
  "removeItem st k =
     (if available st then (None, st\<lparr>items := AList.delete k (items st)\<rparr>)
      else (Some SecurityError, st))"

subsection \<open>The cache: data\<close>

text \<open>
  \<open>CacheEntry\<close>, the merged \<open>CacheConfig\<close> and the fields of \<open>SimpleCache\<close>. The
  \<open>oldestTimestamp\<close> \<open>None\<close> is the number \<open>Infinity\<close>. A stored text of the cache is
  empty, or fails to parse, or parses to an object, given as the list of its entries; an
  entry \<open>None\<close> is a \<open>null\<close> member, on which reading \<open>timestamp\<close> throws.
\<close>

record 'a CacheEntry =
  data :: 'a
  timestamp :: int
  ttl :: int

record CacheConfig =
  defaultTTL :: int
  maxSize :: nat
  storageKey :: string

datatype 'a cache_text = Empty_text | Malformed | Object_text "(string \<times> 'a CacheEntry option) list"

record 'a SimpleCache =
  cache :: "(string \<times> 'a CacheEntry) list"
  config :: CacheConfig
  oldestKey :: "string option"
  oldestTimestamp :: "int option"
  storage :: "'a cache_text localStorage"

definition less_num :: "int \<Rightarrow> int option \<Rightarrow> bool" where
  "less_num t bound = (case bound of None \<Rightarrow> True | Some b \<Rightarrow> t < b)"

definition truthy :: "string option \<Rightarrow> bool" where
  "truthy k = (case k of None \<Rightarrow> False | Some s \<Rightarrow> s \<noteq> [])"

definition expired :: "int \<Rightarrow> 'a CacheEntry \<Rightarrow> bool" where
  "expired now entry = (now - timestamp entry > ttl entry)"

definition stringify_cache :: "(string \<times> 'a CacheEntry) list \<Rightarrow> 'a cache_text" where
  "stringify_cache m = Object_text (map (\<lambda>(k, e). (k, Some e)) m)"

definition is_quota_code22 :: "exn \<Rightarrow> bool" where
  "is_quota_code22 error = (case error of DOMException c n \<Rightarrow> c = 22 | OtherError m \<Rightarrow> False)"

subsection \<open>The cache: eviction bookkeeping and persistence\<close>

text \<open>
  \<open>updateOldestKey\<close> scans the map for the first entry with the least timestamp.
  \<open>remove_oldest_entries\<close> is the \<open>while\<close> loop of the quota handler: as long as the map
  holds more than half of \<open>maxSize\<close> entries and a non-empty oldest key is tracked, it
  deletes that key and recomputes the pointer. \<open>saveToStorage\<close> and \<open>cleanExpired\<close> call
  each other: the quota handler of \<open>saveToStorage\<close> runs \<open>cleanExpired\<close>, which persists
  the map again when it removed something.
\<close>

fun scan_oldest ::
  "(string \<times> 'a CacheEntry) list \<Rightarrow> string option \<times> int option \<Rightarrow> string option \<times> int option" where
  "scan_oldest [] acc = acc"
| "scan_oldest ((key, entry) # rest) (ok, ot) =
     scan_oldest rest
       (if less_num (timestamp entry) ot then (Some key, Some (timestamp entry)) else (ok, ot))"

definition updateOldestKey :: "'a SimpleCache \<Rightarrow> 'a SimpleCache" where
  "updateOldestKey s =
     (case scan_oldest (cache s) (None, None) of
        (k, t) \<Rightarrow> s\<lparr>oldestKey := k, oldestTimestamp := t\<rparr>)"

function remove_oldest_entries :: "'a SimpleCache \<Rightarrow> 'a SimpleCache" where
  "remove_oldest_entries s =
     (if 2 * length (cache s) > maxSize (config s) then
        (case oldestKey s of
           None \<Rightarrow> s
         | Some k \<Rightarrow>
             if k \<noteq> [] then
               remove_oldest_entries (updateOldestKey (s\<lparr>cache := AList.delete k (cache s)\<rparr>))
             else s)
      else s)"
  by pat_completeness auto
termination
proof (relation "measure (\<lambda>s. 2 * length (cache s) +
          (if oldestKey s = None \<or> oldestKey s \<in> Some ` fst ` set (cache s) then 0 else 1))",
       goal_cases)
  case 1
  show ?case by simp
next
  case (2 s k)
  have scan: "\<And>(xs :: (string \<times> 'a CacheEntry) list) a b.
     fst (scan_oldest xs (a, b)) = a \<or> fst (scan_oldest xs (a, b)) \<in> Some ` fst ` set xs"
  proof -
    fix xs :: "(string \<times> 'a CacheEntry) list" and a b
    show "fst (scan_oldest xs (a, b)) = a \<or> fst (scan_oldest xs (a, b)) \<in> Some ` fst ` set xs"
    proof (induction xs arbitrary: a b)
      case Nil
      show ?case by simp
    next
      case (Cons p xs)
      obtain key entry where p: "p = (key, entry)" by (cases p)
      show ?case
      proof (cases "less_num (timestamp entry) b")
        case True
        with Cons.IH [of "Some key" "Some (timestamp entry)"] p show ?thesis by auto
      next
        case False
        with Cons.IH [of a b] p show ?thesis by auto
      qed
    qed
  qed
  have len: "\<And>(xs :: (string \<times> 'a CacheEntry) list) k. length (AList.delete k xs) \<le> length xs"
    by (simp add: AList.delete_eq)
  have lenlt: "\<And>(xs :: (string \<times> 'a CacheEntry) list) k.
     k \<in> fst ` set xs \<Longrightarrow> length (AList.delete k xs) < length xs"
  proof -
    fix xs :: "(string \<times> 'a CacheEntry) list" and k
    assume "k \<in> fst ` set xs"
    then show "length (AList.delete k xs) < length xs"
      by (auto simp: AList.delete_eq intro!: length_filter_less)
  qed
  let ?s' = "updateOldestKey (s\<lparr>cache := AList.delete k (cache s)\<rparr>)"
  have c': "cache ?s' = AList.delete k (cache s)"
    by (simp add: updateOldestKey_def split: prod.splits)
  have o': "oldestKey ?s' = None \<or> oldestKey ?s' \<in> Some ` fst ` set (cache ?s')"
  proof -
    obtain a b where ab: "scan_oldest (AList.delete k (cache s)) (None, None) = (a, b)"
      by (cases "scan_oldest (AList.delete k (cache s)) (None, None)")
    with scan [of "AList.delete k (cache s)" None None]
    have "a = None \<or> a \<in> Some ` fst ` set (AList.delete k (cache s))" by simp
    with ab show ?thesis by (simp add: updateOldestKey_def)
  qed
  show ?case
  proof (cases "k \<in> fst ` set (cache s)")
    case True
    with lenlt [of k "cache s"] c' o' 2 show ?thesis by auto
  next
    case False
    with len [of k "cache s"] c' o' 2 show ?thesis by (auto simp: image_iff)
  qed
qed

definition expired_keys :: "int \<Rightarrow> (string \<times> 'a CacheEntry) list \<Rightarrow> string list" where
  "expired_keys now m = map fst (filter (\<lambda>(key, entry). expired now entry) m)"

function saveToStorage :: "'a SimpleCache \<Rightarrow> int \<Rightarrow> exn option \<times> 'a SimpleCache"
  and cleanExpired :: "'a SimpleCache \<Rightarrow> int \<Rightarrow> (exn + nat) \<times> 'a SimpleCache"
where
  "saveToStorage s now =
     (case setItem (storage s) (storageKey (config s)) (stringify_cache (cache s)) of
        (None, st) \<Rightarrow> (None, s\<lparr>storage := st\<rparr>)
      | (Some error, st) \<Rightarrow>
          if is_quota_code22 error then
            (case cleanExpired (s\<lparr>storage := st\<rparr>) now of
               (Inl e, s1) \<Rightarrow> (Some e, s1)
             | (Inr cleaned, s1) \<Rightarrow>
                 (let s2 = remove_oldest_entries s1 in
                  case setItem (storage s2) (storageKey (config s2)) (stringify_cache (cache s2)) of
                    (r, st2) \<Rightarrow> (None, s2\<lparr>storage := st2\<rparr>)))
          else (None, s\<lparr>storage := st\<rparr>))"
| "cleanExpired s now =
     (let keysToDelete = expired_keys now (cache s);
          s1 = s\<lparr>cache := fold AList.delete keysToDelete (cache s)\<rparr>;
          cleaned = length keysToDelete
      in if cleaned > 0 then
           (case saveToStorage (updateOldestKey s1) now of
              (Some e, s2) \<Rightarrow> (Inl e, s2)
            | (None, s2) \<Rightarrow> (Inr cleaned, s2))
         else (Inr cleaned, s1))"
  by pat_completeness auto
termination
proof (relation "measure (\<lambda>x. case x of
          Inl (s, now) \<Rightarrow> 2 * length (cache s) + 1
        | Inr (s, now) \<Rightarrow> 2 * length (cache s))", goal_cases)
  case 1
  show ?case by simp
next
  case (2 s now x1 st error)
  then show ?case by simp
next
  case (3 s now keysToDelete s1 cleaned)
  have len: "\<And>(xs :: (string \<times> 'a CacheEntry) list) k. length (AList.delete k xs) \<le> length xs"
    by (simp add: AList.delete_eq)
  have lenlt: "\<And>(xs :: (string \<times> 'a CacheEntry) list) k.
     k \<in> fst ` set xs \<Longrightarrow> length (AList.delete k xs) < length xs"
    by (auto simp: AList.delete_eq intro!: length_filter_less)
  have fold_le: "\<And>ks (xs :: (string \<times> 'a CacheEntry) list).
     length (fold AList.delete ks xs) \<le> length xs"
  proof -
    fix ks and xs :: "(string \<times> 'a CacheEntry) list"
    show "length (fold AList.delete ks xs) \<le> length xs"
    proof (induction ks arbitrary: xs)
      case Nil
      show ?case by simp
    next
      case (Cons k ks)
      have "length (fold AList.delete ks (AList.delete k xs)) \<le> length (AList.delete k xs)"
        by (rule Cons.IH)
      with len [of k xs] show ?case by simp
    qed
  qed
  from 3 have ne: "expired_keys now (cache s) \<noteq> []" by simp
  then obtain k ks where ks: "expired_keys now (cache s) = k # ks"
    by (cases "expired_keys now (cache s)") auto
  then have "k \<in> set (expired_keys now (cache s))" by simp
  then have kin: "k \<in> fst ` set (cache s)"
    by (auto simp: expired_keys_def)
  have "length (fold AList.delete (k # ks) (cache s)) \<le> length (AList.delete k (cache s))"
    using fold_le [of ks "AList.delete k (cache s)"] by simp
  with lenlt [OF kin] have "length (fold AList.delete (expired_keys now (cache s)) (cache s)) < length (cache s)"
    using ks by simp
  with 3 show ?case
    by (simp add: updateOldestKey_def split: prod.splits)
qed

subsection \<open>The cache: public operations\<close>

text \<open>
  \<open>get\<close>, \<open>set\<close> (here \<open>set_entry\<close>: \<open>insert_entry\<close> is its work on the map, up to the
  call of \<open>saveToStorage\<close>), \<open>has\<close>, \<open>delete\<close>, \<open>clear\<close>, \<open>getStats\<close>, and the
  constructor with \<open>loadFromStorage\<close>.
\<close>

definition get :: "'a SimpleCache \<Rightarrow> string \<Rightarrow> int \<Rightarrow> (exn + 'a option) \<times> 'a SimpleCache" where
  "get s key now =
     (case map_of (cache s) key of
        None \<Rightarrow> (Inr None, s)
      | Some entry \<Rightarrow>
          if now - timestamp entry > ttl entry then
            (case saveToStorage (s\<lparr>cache := AList.delete key (cache s)\<rparr>) now of
               (Some e, s') \<Rightarrow> (Inl e, s')
             | (None, s') \<Rightarrow> (Inr None, s'))
          else (Inr (Some (data entry)), s))"

definition insert_entry ::
  "'a SimpleCache \<Rightarrow> string \<Rightarrow> 'a \<Rightarrow> int option \<Rightarrow> int \<Rightarrow> 'a SimpleCache" where
  "insert_entry s key val ttl_arg now =
     (let entry = \<lparr>data = val, timestamp = now,
                    ttl = (case ttl_arg of None \<Rightarrow> defaultTTL (config s) | Some t \<Rightarrow> t)\<rparr>;
          s1 = (if length (cache s) \<ge> maxSize (config s) then
                  (if truthy (oldestKey s) then
                     updateOldestKey (s\<lparr>cache := AList.delete (the (oldestKey s)) (cache s)\<rparr>)
                   else s)
                else s);
          s2 = s1\<lparr>cache := AList.update key entry (cache s1)\<rparr>;
          s3 = (if less_num now (oldestTimestamp s2) then
                  s2\<lparr>oldestKey := Some key, oldestTimestamp := Some now\<rparr>
                else s2)
      in s3)"

definition set_entry ::
  "'a SimpleCache \<Rightarrow> string \<Rightarrow> 'a \<Rightarrow> int option \<Rightarrow> int \<Rightarrow> exn option \<times> 'a SimpleCache" where
  "set_entry s key val ttl_arg now = saveToStorage (insert_entry s key val ttl_arg now) now"


definition delete :: "'a SimpleCache \<Rightarrow> string \<Rightarrow> int \<Rightarrow> (exn + bool) \<times> 'a SimpleCache" where
  "delete s key now =
     (let deleted = (map_of (cache s) key \<noteq> None);
          s1 = s\<lparr>cache := AList.delete key (cache s)\<rparr>
      in if deleted then
           (let s2 = (if Some key = oldestKey s1 then updateOldestKey s1 else s1)
            in case saveToStorage s2 now of
                 (Some e, s3) \<Rightarrow> (Inl e, s3)
               | (None, s3) \<Rightarrow> (Inr deleted, s3))
         else (Inr deleted, s1))"

definition clear :: "'a SimpleCache \<Rightarrow> int \<Rightarrow> exn option \<times> 'a SimpleCache" where
  "clear s now = saveToStorage (s\<lparr>cache := [], oldestKey := None, oldestTimestamp := None\<rparr>) now"

record CacheStats =
  stats_size :: nat
  stats_maxSize :: nat
  keys :: "string list"
  oldestEntry :: "int option"
  newestEntry :: "int option"

definition getStats :: "'a SimpleCache \<Rightarrow> CacheStats" where
  "getStats s =
     (let timestamps = map (\<lambda>(k, entry). timestamp entry) (cache s)
      in \<lparr>stats_size = length (cache s),
          stats_maxSize = maxSize (config s),
          keys = map fst (cache s),
          oldestEntry = (if length timestamps > 0 then Some (Min (set timestamps)) else None),
          newestEntry = (if length timestamps > 0 then Some (Max (set timestamps)) else None)\<rparr>)"

fun load_entries ::
  "(string \<times> 'a CacheEntry option) list \<Rightarrow> int \<Rightarrow> 'a SimpleCache \<Rightarrow> exn option \<times> 'a SimpleCache" where
  "load_entries [] now s = (None, s)"
| "load_entries ((key, None) # rest) now s = (Some (OtherError ''TypeError''), s)"
| "load_entries ((key, Some entry) # rest) now s =
     load_entries rest now
       (if now - timestamp entry \<le> ttl entry then
          (let s1 = s\<lparr>cache := AList.update key entry (cache s)\<rparr>
           in if less_num (timestamp entry) (oldestTimestamp s1) then
                s1\<lparr>oldestTimestamp := Some (timestamp entry), oldestKey := Some key\<rparr>
              else s1)
        else s)"

definition loadFromStorage_try :: "'a SimpleCache \<Rightarrow> int \<Rightarrow> exn option \<times> 'a SimpleCache" where
  "loadFromStorage_try s now =
     (case getItem (storage s) (storageKey (config s)) of
        Inl e \<Rightarrow> (Some e, s)
      | Inr None \<Rightarrow> (None, s)
      | Inr (Some Empty_text) \<Rightarrow> (None, s)
      | Inr (Some Malformed) \<Rightarrow> (Some (OtherError ''SyntaxError''), s)
      | Inr (Some (Object_text parsed)) \<Rightarrow>
          (case load_entries parsed now s of
             (Some e, s1) \<Rightarrow> (Some e, s1)
           | (None, s1) \<Rightarrow>
               if length parsed \<noteq> length (cache s1) then saveToStorage s1 now
               else (None, s1)))"

definition loadFromStorage :: "'a SimpleCache \<Rightarrow> int \<Rightarrow> exn option \<times> 'a SimpleCache" where
  "loadFromStorage s now =
     (case loadFromStorage_try s now of
        (None, s1) \<Rightarrow> (None, s1)
      | (Some error, s1) \<Rightarrow>
          (case removeItem (storage s1) (storageKey (config s1)) of
             (r, st) \<Rightarrow> (None, s1\<lparr>storage := st\<rparr>)))"

definition new_SimpleCache ::
  "CacheConfig \<Rightarrow> 'a cache_text localStorage \<Rightarrow> int \<Rightarrow> exn option \<times> 'a SimpleCache" where
  "new_SimpleCache cfg st now =
     loadFromStorage
       \<lparr>cache = [], config = cfg, oldestKey = None, oldestTimestamp = None, storage = st\<rparr> now"

subsection \<open>Strings\<close>

text \<open>
  \<open>String.prototype.trim\<close>, \<open>toLowerCase\<close> and \<open>includes\<close> on byte strings: white space
  is the ASCII white space (tab, line feed, vertical tab, form feed, carriage return,
  space) and only the letters \<open>A\<close> to \<open>Z\<close> have a lower case.
\<close>

definition is_space :: "char \<Rightarrow> bool" where
  "is_space c = (c \<in> set [CHR 0x09, CHR 0x0A, CHR 0x0B, CHR 0x0C, CHR 0x0D, CHR '' ''])"

definition trim :: "string \<Rightarrow> string" where
  "trim s = rev (dropWhile is_space (rev (dropWhile is_space s)))"

definition lower_char :: "char \<Rightarrow> char" where
  "lower_char c =
     (case map_of (zip ''ABCDEFGHIJKLMNOPQRSTUVWXYZ'' ''abcdefghijklmnopqrstuvwxyz'') c of
        None \<Rightarrow> c
      | Some l \<Rightarrow> l)"

definition toLowerCase :: "string \<Rightarrow> string" where
  "toLowerCase s = map lower_char s"

fun str_includes :: "string \<Rightarrow> string \<Rightarrow> bool" where
  "str_includes [] q = (q = [])"
| "str_includes (c # cs) q = (take (length q) (c # cs) = q \<or> str_includes cs q)"

subsection \<open>The history store: data\<close>

text \<open>
  A \<open>SavedComparison\<close> has the fields \<open>id\<close>, \<open>timestamp\<close>, \<open>inputText\<close>, \<open>result\<close>,
  \<open>tags\<close> and \<open>notes\<close>; the result is an opaque payload of type \<open>'r\<close>. A stored text is
  given by its length in bytes and by what \<open>JSON.parse\<close> makes of it: it fails, or yields
  \<open>null\<close>, or an array whose members are well-formed comparisons or not, or some other
  value, of which only the \<open>length\<close> property matters (\<open>None\<close> when it has none).
  \<open>JSON.stringify\<close> and \<open>Blob\<close> belong to the platform: the \<open>serializer\<close> gives the
  number of bytes of the JSON text of one item and of a list, and \<open>stringify\<close> is the text
  of a list. The limits are those of the storage constants. The two retention ratios are
  the doubles nearest to 0.8 and 0.7, given by their 53-bit significands (the value is the
  significand divided by \<open>2 ^ 53\<close>), and \<open>floor_times n m\<close> is
  \<open>Math.floor(n * ratio)\<close> with the product rounded to the nearest double, ties to even.
\<close>

record 'r SavedComparison =
  item_id :: string
  item_timestamp :: int
  inputText :: string
  result :: 'r
  tags :: "string list option"
  item_notes :: "string option"

datatype 'r json_entry = Valid "'r SavedComparison" | Invalid

datatype 'r json =
    Malformed_json
  | Json_null
  | Json_other "nat option"
  | Json_array "'r json_entry list"

record 'r stored_text =
  bytes :: nat
  parsed :: "'r json"

record 'r serializer =
  item_bytes :: "'r SavedComparison \<Rightarrow> nat"
  array_bytes :: "'r SavedComparison list \<Rightarrow> nat"

definition stringify :: "'r serializer \<Rightarrow> 'r SavedComparison list \<Rightarrow> 'r stored_text" where
  "stringify js history = \<lparr>bytes = array_bytes js history, parsed = Json_array (map Valid history)\<rparr>"

definition STORAGE_KEY :: string where
  "STORAGE_KEY = ''monarch-labs-token-optimizer-history''"

definition MAX_HISTORY_ITEMS :: nat where
  "MAX_HISTORY_ITEMS = 100"

definition MAX_ITEM_SIZE :: nat where
  "MAX_ITEM_SIZE = 5 * 1024 * 1024"

definition MAX_TOTAL_SIZE :: nat where
  "MAX_TOTAL_SIZE = 10 * 1024 * 1024"

definition PRUNING_RATIO :: nat where
  "PRUNING_RATIO = 7205759403792794"

definition AGGRESSIVE_PRUNING_RATIO :: nat where
  "AGGRESSIVE_PRUNING_RATIO = 6305039478318694"

fun bit_length :: "nat \<Rightarrow> nat" where
  "bit_length n = (if n = 0 then 0 else Suc (bit_length (n div 2)))"

definition floor_times :: "nat \<Rightarrow> nat \<Rightarrow> nat" where
  "floor_times n m =
     (let a = n * m in
      if a < 2 ^ 53 then a div 2 ^ 53
      else
        (let sh = bit_length a - 53;
             q = a div 2 ^ sh;
             r = a mod 2 ^ sh;
             q' = (if 2 * r > 2 ^ sh \<or> (2 * r = 2 ^ sh \<and> odd q) then q + 1 else q)
         in (q' * 2 ^ sh) div 2 ^ 53))"

subsection \<open>The history store: helpers\<close>

definition isQuotaExceededError :: "exn \<Rightarrow> bool" where
  "isQuotaExceededError error =
     (case error of
        DOMException code name \<Rightarrow>
          code = 22 \<or> code = 1014 \<or> name = ''QuotaExceededError'' \<or>
          name = ''NS_ERROR_DOM_QUOTA_REACHED''
      | OtherError m \<Rightarrow> False)"

definition getStorageSize :: "'r stored_text localStorage \<Rightarrow> string \<Rightarrow> nat" where
  "getStorageSize st key =
     (case getItem st key of
        Inl e \<Rightarrow> 0
      | Inr None \<Rightarrow> 0
      | Inr (Some item) \<Rightarrow> (if bytes item > 0 then bytes item else 0))"

definition getTotalStorageSize :: "'r stored_text localStorage \<Rightarrow> nat" where
  "getTotalStorageSize st =
     (if available st then
        sum_list (map (getStorageSize st) (filter (\<lambda>key. key \<noteq> []) (map fst (items st))))
      else 0)"

definition validateSavedComparison :: "'r json_entry \<Rightarrow> bool" where
  "validateSavedComparison d = (case d of Valid item \<Rightarrow> True | Invalid \<Rightarrow> False)"

definition validateHistoryArray :: "'r json \<Rightarrow> 'r SavedComparison list" where
  "validateHistoryArray d =
     (case d of
        Json_array es \<Rightarrow>
          concat (map (\<lambda>e. case e of Valid item \<Rightarrow> [item] | Invalid \<Rightarrow> [])
                    (filter validateSavedComparison es))
      | Malformed_json \<Rightarrow> [] | Json_null \<Rightarrow> [] | Json_other len \<Rightarrow> [])"

definition estimateItemSize :: "'r serializer \<Rightarrow> 'r SavedComparison \<Rightarrow> nat" where
  "estimateItemSize js item = item_bytes js item"

definition sort_newest_first :: "'r SavedComparison list \<Rightarrow> 'r SavedComparison list" where
  "sort_newest_first xs = sort_key (\<lambda>x. - item_timestamp x) xs"

fun cleanup_loop ::
  "'r serializer \<Rightarrow> 'r SavedComparison list \<Rightarrow> 'r SavedComparison list \<Rightarrow> nat \<Rightarrow>
   'r SavedComparison list" where
  "cleanup_loop js [] cleaned totalSize = cleaned"
| "cleanup_loop js (item # rest) cleaned totalSize =
     (let itemSize = estimateItemSize js item in
      if itemSize > MAX_ITEM_SIZE then cleanup_loop js rest cleaned totalSize
      else if totalSize + itemSize > MAX_TOTAL_SIZE \<and> length cleaned > 0 then cleaned
      else if length cleaned \<ge> MAX_HISTORY_ITEMS then cleaned
      else cleanup_loop js rest (cleaned @ [item]) (totalSize + itemSize))"

definition cleanupOldItems :: "'r serializer \<Rightarrow> 'r SavedComparison list \<Rightarrow> 'r SavedComparison list" where
  "cleanupOldItems js history = cleanup_loop js (sort_newest_first history) [] 0"

definition normalized :: "'r SavedComparison \<Rightarrow> string" where
  "normalized item = toLowerCase (trim (inputText item))"

definition keep_most_recent ::
  "'r SavedComparison \<Rightarrow> (string \<times> 'r SavedComparison) list \<Rightarrow> (string \<times> 'r SavedComparison) list" where
  "keep_most_recent item seen =
     (let key = normalized item in
      case map_of seen key of
        None \<Rightarrow> AList.update key item seen
      | Some existing \<Rightarrow>
          if item_timestamp item > item_timestamp existing then AList.update key item seen
          else seen)"

definition deduplicateHistory :: "'r SavedComparison list \<Rightarrow> 'r SavedComparison list" where
  "deduplicateHistory history = sort_newest_first (map snd (fold keep_most_recent history []))"

subsection \<open>The history store: public operations\<close>

text \<open>
  Every public function of the history service is one \<open>try\<close> block with a handler that
  returns absent, \<open>false\<close> or the empty list. \<open>saveComparison\<close> takes the time and the
  generated identifier as arguments; \<open>skip_matching\<close> is the body of its loop over the
  loaded history, \<open>retry_after_quota\<close> the handler of its inner \<open>try\<close>.
\<close>

definition getHistory_try ::
  "'r serializer \<Rightarrow> 'r stored_text localStorage \<Rightarrow> (exn + 'r SavedComparison list) \<times> 'r stored_text localStorage" where
  "getHistory_try js st =
     (case getItem st STORAGE_KEY of
        Inl e \<Rightarrow> (Inl e, st)
      | Inr None \<Rightarrow> (Inr [], st)
      | Inr (Some stored) \<Rightarrow>
          if bytes stored = 0 then (Inr [], st)
          else
            (case parsed stored of
               Malformed_json \<Rightarrow> (Inl (OtherError ''SyntaxError''), st)
             | Json_null \<Rightarrow> (Inl (OtherError ''TypeError''), st)
             | Json_other len \<Rightarrow>
                 (let validated = validateHistoryArray (Json_other len);
                      st1 = (if Some (length validated) \<noteq> len
                             then snd (setItem st STORAGE_KEY (stringify js validated)) else st)
                  in (Inr (deduplicateHistory validated), st1))
             | Json_array es \<Rightarrow>
                 (let validated = validateHistoryArray (Json_array es);
                      st1 = (if length validated \<noteq> length es
                             then snd (setItem st STORAGE_KEY (stringify js validated)) else st)
                  in (Inr (deduplicateHistory validated), st1))))"

definition getHistory ::
  "'r serializer \<Rightarrow> 'r stored_text localStorage \<Rightarrow> (exn + 'r SavedComparison list) \<times> 'r stored_text localStorage" where
  "getHistory js st =
     (case getHistory_try js st of
        (Inr history, st1) \<Rightarrow> (Inr history, st1)
      | (Inl error, st1) \<Rightarrow> (Inr [], snd (removeItem st1 STORAGE_KEY)))"

definition skip_matching ::
  "string \<Rightarrow> 'r SavedComparison \<Rightarrow> (string \<times> 'r SavedComparison) list \<Rightarrow>
   (string \<times> 'r SavedComparison) list" where
  "skip_matching normalizedInput item deduplicatedMap =
     (if normalized item = normalizedInput then deduplicatedMap
      else keep_most_recent item deduplicatedMap)"

definition new_comparison ::
  "int \<Rightarrow> string \<Rightarrow> string \<Rightarrow> 'r \<Rightarrow> string list option \<Rightarrow> string option \<Rightarrow> 'r SavedComparison" where
  "new_comparison now new_id text res tgs nts =
     \<lparr>item_id = new_id, item_timestamp = now, inputText = trim text, result = res,
      tags = map_option (filter (\<lambda>t. t \<noteq> [])) tgs,
      item_notes = (case nts of None \<Rightarrow> None
               | Some n \<Rightarrow> if trim n = [] then None else Some (trim n))\<rparr>"

definition retry_after_quota ::
  "'r serializer \<Rightarrow> 'r stored_text localStorage \<Rightarrow> exn \<Rightarrow> 'r SavedComparison list \<Rightarrow> 'r SavedComparison \<Rightarrow>
   (exn + 'r SavedComparison option) \<times> 'r stored_text localStorage" where
  "retry_after_quota js st error history saved =
     (if isQuotaExceededError error then
        (let history1 = cleanupOldItems js
               (take (floor_times (length history) AGGRESSIVE_PRUNING_RATIO) history)
         in case setItem st STORAGE_KEY (stringify js history1) of
              (None, st1) \<Rightarrow> (Inr (Some saved), st1)
            | (Some retryError, st1) \<Rightarrow> (Inr None, st1))
      else (Inl error, st))"

definition saveComparison_try ::
  "'r serializer \<Rightarrow> 'r stored_text localStorage \<Rightarrow> int \<Rightarrow> string \<Rightarrow> string \<Rightarrow> 'r \<Rightarrow>
   string list option \<Rightarrow> string option \<Rightarrow>
   (exn + 'r SavedComparison option) \<times> 'r stored_text localStorage" where
  "saveComparison_try js st now new_id text res tgs nts =
     (let saved = new_comparison now new_id text res tgs nts in
      if inputText saved = [] then (Inr None, st)
      else if estimateItemSize js saved > MAX_ITEM_SIZE then (Inr None, st)
      else
        (case getHistory js st of
           (Inl e, st1) \<Rightarrow> (Inl e, st1)
         | (Inr loaded, st1) \<Rightarrow>
             (let normalizedInput = toLowerCase (trim (inputText saved));
                  deduplicatedMap = fold (skip_matching normalizedInput) loaded [];
                  history = cleanupOldItems js (saved # map snd deduplicatedMap);
                  serialized = stringify js history;
                  serializedSize = bytes serialized;
                  currentTotal = getTotalStorageSize st1;
                  currentHistorySize = getStorageSize st1 STORAGE_KEY;
                  newTotalSize = int currentTotal - int currentHistorySize + int serializedSize
              in if newTotalSize > int MAX_TOTAL_SIZE then
                   (let history1 = cleanupOldItems js
                          (take (floor_times (length history) PRUNING_RATIO) history)
                    in case setItem st1 STORAGE_KEY (stringify js history1) of
                         (None, st2) \<Rightarrow> (Inr (Some saved), st2)
                       | (Some error, st2) \<Rightarrow> retry_after_quota js st2 error history1 saved)
                 else
                   (case setItem st1 STORAGE_KEY serialized of
                      (None, st2) \<Rightarrow> (Inr (Some saved), st2)
                    | (Some error, st2) \<Rightarrow> retry_after_quota js st2 error history saved))))"

definition saveComparison ::
  "'r serializer \<Rightarrow> 'r stored_text localStorage \<Rightarrow> int \<Rightarrow> string \<Rightarrow> string \<Rightarrow> 'r \<Rightarrow>
   string list option \<Rightarrow> string option \<Rightarrow>
   (exn + 'r SavedComparison option) \<times> 'r stored_text localStorage" where
  "saveComparison js st now new_id text res tgs nts =
     (case saveComparison_try js st now new_id text res tgs nts of
        (Inr r, st1) \<Rightarrow> (Inr r, st1)
      | (Inl error, st1) \<Rightarrow> (Inr None, st1))"

definition by_id :: "'r SavedComparison list \<Rightarrow> (string \<times> 'r SavedComparison) list" where
  "by_id history = fold (\<lambda>item m. AList.update (item_id item) item m) history []"

definition getComparisonById ::
  "'r serializer \<Rightarrow> 'r stored_text localStorage \<Rightarrow> string \<Rightarrow>
   (exn + 'r SavedComparison option) \<times> 'r stored_text localStorage" where
  "getComparisonById js st ident =
     (case getHistory js st of
        (Inl e, st1) \<Rightarrow> (Inr None, st1)
      | (Inr history, st1) \<Rightarrow> (Inr (map_of (by_id history) ident), st1))"

definition deleteComparison ::
  "'r serializer \<Rightarrow> 'r stored_text localStorage \<Rightarrow> string \<Rightarrow> (exn + bool) \<times> 'r stored_text localStorage" where
  "deleteComparison js st ident =
     (case getHistory js st of
        (Inl e, st1) \<Rightarrow> (Inr False, st1)
      | (Inr history, st1) \<Rightarrow>
          (let initialLength = length history;
               filtered = filter (\<lambda>item. item_id item \<noteq> ident) history
           in if length filtered = initialLength then (Inr False, st1)
              else
                (case setItem st1 STORAGE_KEY (stringify js filtered) of
                   (None, st2) \<Rightarrow> (Inr True, st2)
                 | (Some error, st2) \<Rightarrow> (Inr False, st2))))"

record updates =
  new_tags :: "string list option option"
  new_notes :: "string option option"

definition apply_updates :: "'r SavedComparison \<Rightarrow> updates \<Rightarrow> 'r SavedComparison" where
  "apply_updates existing u =
     existing\<lparr>tags := (case new_tags u of None \<Rightarrow> tags existing | Some t \<Rightarrow> t),
              item_notes := (case new_notes u of None \<Rightarrow> item_notes existing | Some n \<Rightarrow> n)\<rparr>"

definition updateComparison ::
  "'r serializer \<Rightarrow> 'r stored_text localStorage \<Rightarrow> string \<Rightarrow> updates \<Rightarrow>
   (exn + bool) \<times> 'r stored_text localStorage" where
  "updateComparison js st ident u =
     (case getHistory js st of
        (Inl e, st1) \<Rightarrow> (Inr False, st1)
      | (Inr history, st1) \<Rightarrow>
          (let idMap = by_id history in
           case map_of idMap ident of
             None \<Rightarrow> (Inr False, st1)
           | Some existing \<Rightarrow>
               (let idMap1 = AList.update ident (apply_updates existing u) idMap in
                case setItem st1 STORAGE_KEY (stringify js (map snd idMap1)) of
                  (None, st2) \<Rightarrow> (Inr True, st2)
                | (Some error, st2) \<Rightarrow> (Inr False, st2))))"

fun search_loop ::
  "string \<Rightarrow> 'r SavedComparison list \<Rightarrow> 'r SavedComparison list \<Rightarrow> 'r SavedComparison list" where
  "search_loop lowerQuery [] results = results"
| "search_loop lowerQuery (item # rest) results =
     (if str_includes (toLowerCase (inputText item)) lowerQuery then
        search_loop lowerQuery rest (results @ [item])
      else if (case tags item of
                 None \<Rightarrow> False
               | Some ts \<Rightarrow> length ts > 0 \<and>
                   list_ex (\<lambda>tag. str_includes (toLowerCase tag) lowerQuery) ts) then
        search_loop lowerQuery rest (results @ [item])
      else if (case item_notes item of
                 None \<Rightarrow> False
               | Some n \<Rightarrow> n \<noteq> [] \<and> str_includes (toLowerCase n) lowerQuery) then
        search_loop lowerQuery rest (results @ [item])
      else search_loop lowerQuery rest results)"

definition searchHistory ::
  "'r serializer \<Rightarrow> 'r stored_text localStorage \<Rightarrow> string \<Rightarrow>
   (exn + 'r SavedComparison list) \<times> 'r stored_text localStorage" where
  "searchHistory js st query =
     (case getHistory js st of
        (Inl e, st1) \<Rightarrow> (Inr [], st1)
      | (Inr history, st1) \<Rightarrow>
          if trim query = [] then (Inr history, st1)
          else (Inr (search_loop (toLowerCase query) history []), st1))"

definition filterByTags ::
  "'r serializer \<Rightarrow> 'r stored_text localStorage \<Rightarrow> string list \<Rightarrow>
   (exn + 'r SavedComparison list) \<times> 'r stored_text localStorage" where
  "filterByTags js st tgs =
     (case getHistory js st of
        (Inl e, st1) \<Rightarrow> (Inr [], st1)
      | (Inr history, st1) \<Rightarrow>
          if length tgs = 0 then (Inr history, st1)
          else
            (let tagSet = set (map toLowerCase tgs)
             in (Inr (filter (\<lambda>item. case tags item of
                                None \<Rightarrow> False
                              | Some ts \<Rightarrow> list_ex (\<lambda>tag. toLowerCase tag \<in> tagSet) ts)
                        history), st1)))"

definition clearHistory :: "'r stored_text localStorage \<Rightarrow> exn option \<times> 'r stored_text localStorage" where
  "clearHistory st = (case removeItem st STORAGE_KEY of (r, st1) \<Rightarrow> (None, st1))"

record HistoryStats =
  stats_count :: nat
  stats_bytes :: nat
  stats_totalSize :: nat

definition getHistoryStats ::
  "'r serializer \<Rightarrow> 'r stored_text localStorage \<Rightarrow> (exn + HistoryStats) \<times> 'r stored_text localStorage" where
  "getHistoryStats js st =
     (case getHistory js st of
        (Inl e, st1) \<Rightarrow> (Inr \<lparr>stats_count = 0, stats_bytes = 0, stats_totalSize = 0\<rparr>, st1)
      | (Inr history, st1) \<Rightarrow>
          (Inr \<lparr>stats_count = length history, stats_bytes = getStorageSize st1 STORAGE_KEY,
                stats_totalSize = getTotalStorageSize st1\<rparr>, st1))"

subsection \<open>Notions used in the statements\<close>

text \<open>
  For the cache: the answer the adapter will give to the next write, whether that answer
  is the quota failure the cache recognizes, the map after removing the expired entries as
  \<open>cleanExpired\<close> does, one attempt to write the map, the states in which the size cap
  and the oldest-key pointer are in order, and sequences of the operations that keep them so. For the history store: the
  valid entries of the stored text as \<open>getHistory\<close> reads them, the list \<open>load\<close> returns,
  an adapter that refuses every write for quota, the list an accepted save writes, the
  size estimate of \<open>saveComparison\<close>, sequences of public operations, the budgets, and
  the invariants of the deduplication map.
\<close>

definition next_write :: "'v localStorage \<Rightarrow> exn option" where
  "next_write st = (if available st then policy st (writes st) else Some SecurityError)"

definition quota_hit :: "'v localStorage \<Rightarrow> bool" where
  "quota_hit st = (case next_write st of None \<Rightarrow> False | Some e \<Rightarrow> is_quota_code22 e)"

definition purge_expired :: "int \<Rightarrow> 'a SimpleCache \<Rightarrow> 'a SimpleCache" where
  "purge_expired now s =
     (if expired_keys now (cache s) = [] then s
      else updateOldestKey (s\<lparr>cache := fold AList.delete (expired_keys now (cache s)) (cache s)\<rparr>))"

definition write_attempt :: "'a SimpleCache \<Rightarrow> 'a SimpleCache" where
  "write_attempt s =
     s\<lparr>storage := snd (setItem (storage s) (storageKey (config s)) (stringify_cache (cache s)))\<rparr>"

definition well_tracked :: "'a SimpleCache \<Rightarrow> bool" where
  "well_tracked s =
     (length (cache s) \<le> maxSize (config s) \<and> 0 < maxSize (config s) \<and>
      distinct (map fst (cache s)) \<and> [] \<notin> fst ` set (cache s) \<and>
      (if cache s = [] then oldestTimestamp s = None
       else (case oldestKey s of None \<Rightarrow> False | Some k \<Rightarrow> k \<in> fst ` set (cache s))))"

datatype 'a cache_operation =
    Set_entry string 'a "int option" int
  | Delete_key string int
  | Clean_expired int
  | Clear_all int

fun apply_cache_operation :: "'a cache_operation \<Rightarrow> 'a SimpleCache \<Rightarrow> 'a SimpleCache" where
  "apply_cache_operation (Set_entry key val ttl_arg now) s = snd (set_entry s key val ttl_arg now)"
| "apply_cache_operation (Delete_key key now) s = snd (delete s key now)"
| "apply_cache_operation (Clean_expired now) s = snd (cleanExpired s now)"
| "apply_cache_operation (Clear_all now) s = snd (clear s now)"

fun names_key :: "'a cache_operation \<Rightarrow> bool" where
  "names_key (Set_entry key val ttl_arg now) = (key \<noteq> [])"
| "names_key other = True"

definition stored_history :: "'r stored_text localStorage \<Rightarrow> 'r SavedComparison list" where
  "stored_history st =
     (case getItem st STORAGE_KEY of
        Inl e \<Rightarrow> []
      | Inr None \<Rightarrow> []
      | Inr (Some stored) \<Rightarrow>
          if bytes stored = 0 then [] else validateHistoryArray (parsed stored))"

definition load :: "'r serializer \<Rightarrow> 'r stored_text localStorage \<Rightarrow> 'r SavedComparison list" where
  "load js st = (case fst (getHistory js st) of Inl e \<Rightarrow> [] | Inr history \<Rightarrow> history)"

definition always_quota :: "'v localStorage \<Rightarrow> bool" where
  "always_quota st = (\<forall>n. \<exists>e. policy st n = Some e \<and> isQuotaExceededError e)"



datatype 'r operation =
    Save int string string 'r "string list option" "string option"
  | Load
  | GetById string
  | Delete string
  | Update string updates
  | Search string
  | FilterByTags "string list"
  | Clear
  | Stats

fun apply_operation ::
  "'r serializer \<Rightarrow> 'r operation \<Rightarrow> 'r stored_text localStorage \<Rightarrow> 'r stored_text localStorage" where
  "apply_operation js (Save now new_id input res tgs nts) st =
     snd (saveComparison js st now new_id input res tgs nts)"
| "apply_operation js Load st = snd (getHistory js st)"
| "apply_operation js (GetById ident) st = snd (getComparisonById js st ident)"
| "apply_operation js (Delete ident) st = snd (deleteComparison js st ident)"
| "apply_operation js (Update ident u) st = snd (updateComparison js st ident u)"
| "apply_operation js (Search query) st = snd (searchHistory js st query)"
| "apply_operation js (FilterByTags wanted) st = snd (filterByTags js st wanted)"
| "apply_operation js Clear st = snd (clearHistory st)"
| "apply_operation js Stats st = snd (getHistoryStats js st)"

definition run ::
  "'r serializer \<Rightarrow> 'r operation list \<Rightarrow> 'r stored_text localStorage \<Rightarrow> 'r stored_text localStorage" where
  "run js ops st = fold (apply_operation js) ops st"

fun is_update :: "'r operation \<Rightarrow> bool" where
  "is_update (Update ident u) = True"
| "is_update other = False"

definition total_bytes :: "'r serializer \<Rightarrow> 'r SavedComparison list \<Rightarrow> nat" where
  "total_bytes js history = sum_list (map (estimateItemSize js) history)"

definition budget_ok :: "'r serializer \<Rightarrow> 'r SavedComparison list \<Rightarrow> bool" where
  "budget_ok js history =
     (length history \<le> MAX_HISTORY_ITEMS \<and> total_bytes js history \<le> MAX_TOTAL_SIZE)"

definition shrinks ::
  "'r serializer \<Rightarrow> 'r SavedComparison list \<Rightarrow> 'r SavedComparison list \<Rightarrow> bool" where
  "shrinks js ys xs = (length ys \<le> length xs \<and> total_bytes js ys \<le> total_bytes js xs)"

definition downward :: "'r serializer \<Rightarrow> ('r SavedComparison list \<Rightarrow> bool) \<Rightarrow> bool" where
  "downward js P =
     (P [] \<and> (\<forall>xs ys. P xs \<and> shrinks js ys xs \<longrightarrow> P ys) \<and> (\<forall>xs. budget_ok js xs \<longrightarrow> P xs))"



subsection \<open>Example states\<close>

definition demo_config :: CacheConfig where
  "demo_config = \<lparr>defaultTTL = 1000, maxSize = 2, storageKey = ''monarch-labs-cache''\<rparr>"

definition small_config :: CacheConfig where
  "small_config = \<lparr>defaultTTL = 1000, maxSize = 3, storageKey = ''monarch-labs-cache''\<rparr>"

definition accepting_store :: "'v localStorage" where
  "accepting_store = \<lparr>items = [], available = True, policy = (\<lambda>n. None), writes = 0\<rparr>"

definition full_store :: "'v localStorage" where
  "full_store =
     \<lparr>items = [], available = True, policy = (\<lambda>n. Some QuotaExceededError), writes = 0\<rparr>"

definition refusing_after :: "nat \<Rightarrow> 'v localStorage" where
  "refusing_after k =
     \<lparr>items = [], available = True,
      policy = (\<lambda>n. if n < k then None else Some QuotaExceededError), writes = 0\<rparr>"

definition fresh_cache :: "nat SimpleCache" where
  "fresh_cache = snd (new_SimpleCache demo_config accepting_store 0)"

definition stale_pointer_cache :: "nat SimpleCache" where
  "stale_pointer_cache =
     (let s1 = snd (set_entry fresh_cache ''a'' 1 (Some 10) 0);
          s2 = snd (set_entry s1 ''b'' 2 None 1);
          s3 = snd (get s2 ''a'' 20)
      in snd (set_entry s3 ''c'' 3 None 21))"

definition expired_entry_cache :: "nat SimpleCache" where
  "expired_entry_cache =
     \<lparr>cache = [(''a'', \<lparr>data = 1, timestamp = 0, ttl = 10\<rparr>),
               (''b'', \<lparr>data = 2, timestamp = 1, ttl = 1000\<rparr>)],
      config = demo_config, oldestKey = Some ''a'', oldestTimestamp = Some 0,
      storage = full_store\<rparr>"

definition two_entry_cache :: "nat SimpleCache" where
  "two_entry_cache =
     (let s0 = snd (new_SimpleCache small_config (refusing_after 2) 0);
          s1 = snd (set_entry s0 ''a'' 1 (Some 1000) 0)
      in snd (set_entry s1 ''b'' 2 (Some 1000) 1))"

definition three_entry_cache :: "nat SimpleCache" where
  "three_entry_cache =
     (let s0 = snd (new_SimpleCache small_config (refusing_after 3) 0);
          s1 = snd (set_entry s0 ''a'' 1 (Some 1000) 0);
          s2 = snd (set_entry s1 ''b'' 2 (Some 1000) 1)
      in snd (set_entry s2 ''c'' 3 (Some 1000) 2))"

definition demo_serializer :: "nat serializer" where
  "demo_serializer =
     \<lparr>item_bytes = (\<lambda>x. 100 + length (inputText x) +
          (case item_notes x of None \<Rightarrow> 0 | Some n \<Rightarrow> length n)),
      array_bytes = (\<lambda>xs. 2 + sum_list (map (\<lambda>x. 100 + length (inputText x) +
          (case item_notes x of None \<Rightarrow> 0 | Some n \<Rightarrow> length n)) xs))\<rparr>"





definition order_store :: "nat stored_text localStorage" where
  "order_store =
     snd (saveComparison demo_serializer accepting_store 1 ''1-a'' ''Order 123'' 10 None None)"

definition big_notes :: string where
  "big_notes = replicate 10485760 (CHR ''x'')"

definition save_then_delete :: "nat operation list" where
  "save_then_delete = [Save 1 ''1-a'' ''Order 123'' 10 None None, Delete ''2-b'']"

definition save_then_annotate :: "nat operation list" where
  "save_then_annotate =
     [Save 1 ''1-a'' ''Order 123'' 10 None None,
      Update ''1-a'' \<lparr>new_tags = None, new_notes = Some (Some big_notes)\<rparr>]"


section \<open>Properties\<close>

declare saveToStorage.simps [simp del] cleanExpired.simps [simp del]
  remove_oldest_entries.simps [simp del]


subsection \<open>The adapter\<close>

lemma setItem_fst [simp]: "fst (setItem st k v) = next_write st"
  by (simp add: setItem_def next_write_def split: option.splits)


lemma setItem_reject:
  "next_write st = Some e \<Longrightarrow> available st \<Longrightarrow>
   setItem st k v = (Some e, st\<lparr>writes := Suc (writes st)\<rparr>)"
  by (simp add: setItem_def next_write_def split: option.splits if_splits)

lemma quota_hit_available: "quota_hit st \<Longrightarrow> available st"
  by (auto simp: quota_hit_def next_write_def is_quota_code22_def SecurityError_def
      split: option.splits if_splits)

lemma setItem_quota:
  assumes "quota_hit st"
  shows "\<exists>e. is_quota_code22 e \<and> setItem st k v = (Some e, st\<lparr>writes := Suc (writes st)\<rparr>)"
proof -
  from assms obtain e where e: "next_write st = Some e" "is_quota_code22 e"
    by (auto simp: quota_hit_def split: option.splits)
  with setItem_reject [OF e(1) quota_hit_available [OF assms]] show ?thesis by blast
qed

lemma setItem_no_quota:
  assumes "\<not> quota_hit st" and "setItem st k v = (Some e, st')"
  shows "\<not> is_quota_code22 e"
proof -
  from assms(2) have "next_write st = Some e"
    by (metis fst_conv setItem_fst)
  with assms(1) show ?thesis by (simp add: quota_hit_def)
qed

subsection \<open>Deleting keys from the map\<close>

lemma length_delete_le: "length (AList.delete k xs) \<le> length xs"
  by (simp add: AList.delete_eq)

lemma length_delete_less: "k \<in> fst ` set xs \<Longrightarrow> length (AList.delete k xs) < length xs"
  by (auto simp: AList.delete_eq intro!: length_filter_less)

lemma set_delete_subset: "set (AList.delete k xs) \<subseteq> set xs"
  by (auto simp: AList.delete_eq)

lemma fold_delete_filter:
  "fold AList.delete ks xs = filter (\<lambda>(k, v). k \<notin> set ks) xs"
proof (induction ks arbitrary: xs)
  case Nil
  show ?case by simp
next
  case (Cons k ks)
  have "fold AList.delete (k # ks) xs = fold AList.delete ks (AList.delete k xs)" by simp
  also have "\<dots> = filter (\<lambda>(k', v). k' \<notin> set ks) (AList.delete k xs)" by (rule Cons.IH)
  also have "\<dots> = filter (\<lambda>(k', v). k' \<notin> set (k # ks)) xs"
    unfolding AList.delete_eq filter_filter by (rule filter_cong) auto
  finally show ?case .
qed

lemma delete_absent: "k \<notin> fst ` set xs \<Longrightarrow> AList.delete k xs = xs"
  by (induction xs) auto

lemma expired_keys_purged [simp]:
  "expired_keys now (fold AList.delete (expired_keys now m) m) = []"
  by (auto simp: fold_delete_filter expired_keys_def filter_empty_conv image_iff)

lemma length_distinct_delete:
  "distinct (map fst xs) \<Longrightarrow> k \<in> fst ` set xs \<Longrightarrow> Suc (length (AList.delete k xs)) = length xs"
  by (induction xs) (auto simp: delete_absent)

subsection \<open>The oldest-key scan\<close>

lemma scan_oldest_key:
  "fst (scan_oldest xs (a, b)) = a \<or> fst (scan_oldest xs (a, b)) \<in> Some ` fst ` set xs"
proof (induction xs arbitrary: a b)
  case Nil
  show ?case by simp
next
  case (Cons p xs)
  obtain key entry where p: "p = (key, entry)" by (cases p)
  show ?case
  proof (cases "less_num (timestamp entry) b")
    case True
    with Cons.IH [of "Some key" "Some (timestamp entry)"] p show ?thesis by auto
  next
    case False
    with Cons.IH [of a b] p show ?thesis by auto
  qed
qed

lemma updateOldestKey_eq:
  "updateOldestKey s =
     s\<lparr>oldestKey := fst (scan_oldest (cache s) (None, None)),
       oldestTimestamp := snd (scan_oldest (cache s) (None, None))\<rparr>"
  by (simp add: updateOldestKey_def split: prod.splits)

lemma updateOldestKey_fields [simp]:
  "cache (updateOldestKey s) = cache s"
  "config (updateOldestKey s) = config s"
  "storage (updateOldestKey s) = storage s"
  by (simp_all add: updateOldestKey_def split: prod.splits)

lemma updateOldestKey_storage [simp]:
  "updateOldestKey (s\<lparr>storage := st\<rparr>) = (updateOldestKey s)\<lparr>storage := st\<rparr>"
  "updateOldestKey (s\<lparr>storage := st, cache := c\<rparr>) = (updateOldestKey (s\<lparr>cache := c\<rparr>))\<lparr>storage := st\<rparr>"
  by (simp_all add: updateOldestKey_eq)

lemma updateOldestKey_pointer:
  "oldestKey (updateOldestKey s) = None \<or> oldestKey (updateOldestKey s) \<in> Some ` fst ` set (cache s)"
proof -
  obtain a b where ab: "scan_oldest (cache s) (None, None) = (a, b)"
    by (cases "scan_oldest (cache s) (None, None)")
  with scan_oldest_key [of "cache s" None None] show ?thesis
    by (simp add: updateOldestKey_def)
qed

subsection \<open>The pruning loop\<close>

lemma remove_oldest_entries_done:
  "2 * length (cache s) \<le> maxSize (config s) \<or> \<not> truthy (oldestKey s) \<Longrightarrow>
   remove_oldest_entries s = s"
  by (subst remove_oldest_entries.simps) (auto simp: truthy_def split: option.splits)

lemma remove_oldest_entries_step:
  "maxSize (config s) < 2 * length (cache s) \<Longrightarrow> oldestKey s = Some k \<Longrightarrow> k \<noteq> [] \<Longrightarrow>
   remove_oldest_entries s =
   remove_oldest_entries (updateOldestKey (s\<lparr>cache := AList.delete k (cache s)\<rparr>))"
  by (subst remove_oldest_entries.simps) simp

lemma remove_oldest_entries_cases:
  obtains (stop) "2 * length (cache s) \<le> maxSize (config s) \<or> \<not> truthy (oldestKey s)"
  | (step) k where "maxSize (config s) < 2 * length (cache s)" "oldestKey s = Some k" "k \<noteq> []"
proof (cases "oldestKey s")
  case None
  then show ?thesis by (intro stop) (simp add: truthy_def)
next
  case (Some a)
  show ?thesis
  proof (cases "maxSize (config s) < 2 * length (cache s) \<and> a \<noteq> []")
    case True
    with Some show ?thesis by (intro step [of a]) auto
  next
    case False
    with Some show ?thesis by (intro stop) (auto simp: truthy_def)
  qed
qed

lemma remove_oldest_entries_fields [simp]:
  "config (remove_oldest_entries s) = config s \<and> storage (remove_oldest_entries s) = storage s"
proof (induction s rule: remove_oldest_entries.induct)
  case (1 s)
  show ?case
  proof (cases s rule: remove_oldest_entries_cases)
    case stop
    then show ?thesis by (simp add: remove_oldest_entries_done)
  next
    case (step k)
    with "1.IH" [of k] show ?thesis by (simp add: remove_oldest_entries_step)
  qed
qed

lemma remove_oldest_entries_storage [simp]:
  "remove_oldest_entries (s\<lparr>storage := st\<rparr>) = (remove_oldest_entries s)\<lparr>storage := st\<rparr>"
proof (induction s rule: remove_oldest_entries.induct)
  case (1 s)
  show ?case
  proof (cases s rule: remove_oldest_entries_cases)
    case stop
    then show ?thesis by (simp add: remove_oldest_entries_done)
  next
    case (step k)
    then have "remove_oldest_entries (s\<lparr>storage := st\<rparr>) =
       remove_oldest_entries (updateOldestKey (s\<lparr>storage := st, cache := AList.delete k (cache s)\<rparr>))"
      using remove_oldest_entries_step [of "s\<lparr>storage := st\<rparr>" k] by simp
    with "1.IH" [of k] step show ?thesis by (simp add: remove_oldest_entries_step)
  qed
qed

lemma remove_oldest_entries_subset:
  "set (cache (remove_oldest_entries s)) \<subseteq> set (cache s)"
proof (induction s rule: remove_oldest_entries.induct)
  case (1 s)
  show ?case
  proof (cases s rule: remove_oldest_entries_cases)
    case stop
    then show ?thesis by (simp add: remove_oldest_entries_done)
  next
    case (step k)
    with "1.IH" [of k] set_delete_subset [of k "cache s"] show ?thesis
      by (simp add: remove_oldest_entries_step)
  qed
qed

lemma remove_oldest_entries_post:
  "2 * length (cache (remove_oldest_entries s)) \<le> maxSize (config s) \<or>
   \<not> truthy (oldestKey (remove_oldest_entries s))"
proof (induction s rule: remove_oldest_entries.induct)
  case (1 s)
  show ?case
  proof (cases s rule: remove_oldest_entries_cases)
    case stop
    then show ?thesis by (simp add: remove_oldest_entries_done)
  next
    case (step k)
    with "1.IH" [of k] show ?thesis by (simp add: remove_oldest_entries_step)
  qed
qed

lemma remove_oldest_entries_idem [simp]:
  "remove_oldest_entries (remove_oldest_entries s) = remove_oldest_entries s"
  using remove_oldest_entries_post [of s] by (intro remove_oldest_entries_done) simp

lemma remove_oldest_entries_expired:
  "expired_keys now (cache s) = [] \<Longrightarrow> expired_keys now (cache (remove_oldest_entries s)) = []"
  using remove_oldest_entries_subset [of s]
  by (auto simp: expired_keys_def filter_empty_conv)

subsection \<open>Purging\<close>

lemma purge_expired_fields [simp]:
  "config (purge_expired now s) = config s"
  "storage (purge_expired now s) = storage s"
  by (simp_all add: purge_expired_def)

lemma purge_expired_storage [simp]:
  "purge_expired now (s\<lparr>storage := st\<rparr>) = (purge_expired now s)\<lparr>storage := st\<rparr>"
  by (simp add: purge_expired_def updateOldestKey_eq)

lemma purge_expired_clean [simp]: "expired_keys now (cache (purge_expired now s)) = []"
  by (simp add: purge_expired_def)

lemma purge_expired_noop: "expired_keys now (cache s) = [] \<Longrightarrow> purge_expired now s = s"
  by (simp add: purge_expired_def)

lemma purge_expired_subset: "set (cache (purge_expired now s)) \<subseteq> set (cache s)"
  by (auto simp: purge_expired_def fold_delete_filter)

subsection \<open>Persisting the map\<close>

lemma write_attempt_fields [simp]:
  "cache (write_attempt s) = cache s"
  "config (write_attempt s) = config s"
  "oldestKey (write_attempt s) = oldestKey s"
  "oldestTimestamp (write_attempt s) = oldestTimestamp s"
  by (simp_all add: write_attempt_def)

lemma write_attempt_memory: "write_attempt s = s\<lparr>storage := storage (write_attempt s)\<rparr>"
  by (simp add: write_attempt_def)

lemma available_setItem [simp]: "available (snd (setItem st k v)) = available st"
  by (simp add: setItem_def split: option.splits)

lemma policy_setItem [simp]: "policy (snd (setItem st k v)) = policy st"
  by (simp add: setItem_def split: option.splits)

lemma writes_setItem:
  "writes (snd (setItem st k v)) = (if available st then Suc (writes st) else writes st)"
  by (simp add: setItem_def split: option.splits)

lemma write_attempt_quota:
  "quota_hit (storage s) \<Longrightarrow>
   write_attempt s = s\<lparr>storage := (storage s)\<lparr>writes := Suc (writes (storage s))\<rparr>\<rparr>"
proof -
  assume "quota_hit (storage s)"
  from setItem_quota [OF this] obtain e where
    "setItem (storage s) (storageKey (config s)) (stringify_cache (cache s)) =
       (Some e, (storage s)\<lparr>writes := Suc (writes (storage s))\<rparr>)"
    by blast
  then show ?thesis by (simp add: write_attempt_def)
qed

lemma cleanExpired_none:
  "expired_keys now (cache s) = [] \<Longrightarrow> cleanExpired s now = (Inr 0, s)"
  by (simp add: cleanExpired.simps)

lemma cleanExpired_some:
  "expired_keys now (cache s) \<noteq> [] \<Longrightarrow>
   cleanExpired s now =
     (case saveToStorage (purge_expired now s) now of
        (Some e, s2) \<Rightarrow> (Inl e, s2)
      | (None, s2) \<Rightarrow> (Inr (length (expired_keys now (cache s))), s2))"
  by (simp add: cleanExpired.simps purge_expired_def Let_def)

lemma saveToStorage_plain:
  assumes "\<not> quota_hit (storage s)"
  shows "saveToStorage s now = (None, write_attempt s)"
proof (cases "setItem (storage s) (storageKey (config s)) (stringify_cache (cache s))")
  case (Pair r st)
  show ?thesis
  proof (cases r)
    case None
    with Pair show ?thesis by (simp add: saveToStorage.simps write_attempt_def)
  next
    case (Some e)
    with Pair setItem_no_quota [OF assms] have "\<not> is_quota_code22 e" by blast
    with Pair Some show ?thesis by (simp add: saveToStorage.simps write_attempt_def)
  qed
qed

lemma saveToStorage_quota:
  assumes "quota_hit (storage s)"
  shows "saveToStorage s now =
     (case cleanExpired (write_attempt s) now of
        (Inl e, s1) \<Rightarrow> (Some e, s1)
      | (Inr cleaned, s1) \<Rightarrow> (None, write_attempt (remove_oldest_entries s1)))"
proof -
  from setItem_quota [OF assms] obtain e where e: "is_quota_code22 e"
    "setItem (storage s) (storageKey (config s)) (stringify_cache (cache s)) =
       (Some e, (storage s)\<lparr>writes := Suc (writes (storage s))\<rparr>)"
    by blast
  then show ?thesis
    by (subst saveToStorage.simps)
       (simp add: write_attempt_quota [OF assms] Let_def write_attempt_def
          split: prod.splits sum.splits)
qed

lemma saveToStorage_quota_clean:
  assumes "quota_hit (storage s)" and "expired_keys now (cache s) = []"
  shows "saveToStorage s now = (None, write_attempt (remove_oldest_entries (write_attempt s)))"
  using assms by (simp add: saveToStorage_quota cleanExpired_none)

lemma saveToStorage_shape:
  "saveToStorage s now =
     (None,
      if \<not> quota_hit (storage s) then write_attempt s
      else if expired_keys now (cache s) = [] then
        write_attempt (remove_oldest_entries (write_attempt s))
      else if \<not> quota_hit (storage (write_attempt s)) then
        write_attempt (remove_oldest_entries (write_attempt (purge_expired now (write_attempt s))))
      else
        write_attempt (remove_oldest_entries (write_attempt (remove_oldest_entries
          (write_attempt (purge_expired now (write_attempt s)))))))"
proof (cases "quota_hit (storage s)")
  case False
  then show ?thesis by (simp add: saveToStorage_plain)
next
  case q: True
  show ?thesis
  proof (cases "expired_keys now (cache s) = []")
    case True
    with q show ?thesis by (simp add: saveToStorage_quota_clean)
  next
    case ne: False
    let ?p = "purge_expired now (write_attempt s)"
    have st: "storage ?p = storage (write_attempt s)" by simp
    show ?thesis
    proof (cases "quota_hit (storage (write_attempt s))")
      case False
      with st have "saveToStorage ?p now = (None, write_attempt ?p)"
        by (simp add: saveToStorage_plain)
      with q ne False show ?thesis
        by (simp add: saveToStorage_quota cleanExpired_some)
    next
      case True
      with st have "saveToStorage ?p now =
          (None, write_attempt (remove_oldest_entries (write_attempt ?p)))"
        by (simp add: saveToStorage_quota_clean)
      with q ne True show ?thesis
        by (simp add: saveToStorage_quota cleanExpired_some)
    qed
  qed
qed

lemma saveToStorage_returns [simp]: "fst (saveToStorage s now) = None"
  by (simp add: saveToStorage_shape)


lemma mem_refl: "\<exists>st. x = x\<lparr>storage := st\<rparr>"
  by (rule exI [of _ "storage x"]) simp

lemma mem_write:
  "\<exists>st. x = y\<lparr>storage := st\<rparr> \<Longrightarrow> \<exists>st. write_attempt x = y\<lparr>storage := st\<rparr>"
  by (auto simp: write_attempt_def)

lemma mem_remove:
  "\<exists>st. x = y\<lparr>storage := st\<rparr> \<Longrightarrow>
   \<exists>st. remove_oldest_entries x = (remove_oldest_entries y)\<lparr>storage := st\<rparr>"
  by auto

lemma mem_purge:
  "\<exists>st. x = y\<lparr>storage := st\<rparr> \<Longrightarrow>
   \<exists>st. purge_expired now x = (purge_expired now y)\<lparr>storage := st\<rparr>"
  by auto

lemma saveToStorage_memory:
  "\<exists>st. snd (saveToStorage s now) =
     (if quota_hit (storage s) then remove_oldest_entries (purge_expired now s) else s)
       \<lparr>storage := st\<rparr>"
proof (cases "quota_hit (storage s)")
  case False
  then show ?thesis by (simp add: saveToStorage_shape mem_write mem_refl)
next
  case q: True
  show ?thesis
  proof (cases "expired_keys now (cache s) = []")
    case True
    have "\<exists>st. write_attempt (remove_oldest_entries (write_attempt s)) =
            (remove_oldest_entries s)\<lparr>storage := st\<rparr>"
      by (intro mem_write mem_remove mem_refl)
    with q True show ?thesis by (simp add: saveToStorage_shape purge_expired_noop)
  next
    case ne: False
    have p: "\<exists>st. write_attempt (purge_expired now (write_attempt s)) =
            (purge_expired now s)\<lparr>storage := st\<rparr>"
      by (intro mem_write mem_purge mem_refl)
    have a: "\<exists>st. write_attempt (remove_oldest_entries
               (write_attempt (purge_expired now (write_attempt s)))) =
            (remove_oldest_entries (purge_expired now s))\<lparr>storage := st\<rparr>"
      by (intro mem_write mem_remove p)
    have "\<exists>st. write_attempt (remove_oldest_entries (write_attempt (remove_oldest_entries
               (write_attempt (purge_expired now (write_attempt s)))))) =
            (remove_oldest_entries (remove_oldest_entries (purge_expired now s)))\<lparr>storage := st\<rparr>"
      by (intro mem_write mem_remove p)
    with a q ne show ?thesis by (simp add: saveToStorage_shape)
  qed
qed

subsection \<open>Public operations return\<close>

lemma saveToStorage_no_throw [simp]: "saveToStorage s now \<noteq> (Some e, s')"
  using saveToStorage_returns [of s now] by (metis fst_conv option.distinct(1))








subsection \<open>Reading after writing\<close>

lemma set_entry_plain:
  assumes "\<not> quota_hit (storage s)"
  shows "cache (snd (set_entry s k v ttl_arg now)) =
     AList.update k \<lparr>data = v, timestamp = now,
         ttl = (case ttl_arg of None \<Rightarrow> defaultTTL (config s) | Some t \<Rightarrow> t)\<rparr>
       (if maxSize (config s) \<le> length (cache s) \<and> truthy (oldestKey s)
        then AList.delete (the (oldestKey s)) (cache s) else cache s)"
  using assms by (simp add: set_entry_def insert_entry_def Let_def saveToStorage_plain)

lemma saveToStorage_subset: "set (cache (snd (saveToStorage s now))) \<subseteq> set (cache s)"
proof -
  from saveToStorage_memory [of s now] obtain st where
    "snd (saveToStorage s now) =
      (if quota_hit (storage s) then remove_oldest_entries (purge_expired now s) else s)
        \<lparr>storage := st\<rparr>" by blast
  then have "cache (snd (saveToStorage s now)) =
      cache (if quota_hit (storage s) then remove_oldest_entries (purge_expired now s) else s)"
    by simp
  with remove_oldest_entries_subset [of "purge_expired now s"] purge_expired_subset [of now s]
  show ?thesis by (auto split: if_splits)
qed

text \<open>
  Claim C1, as amended. \<open>set(k, v, t)\<close> at time \<open>t0\<close> puts the entry \<open>(v, t0, t)\<close>
  under \<open>k\<close> into the map it then persists, and the entry is in the map when \<open>set\<close>
  returns unless the persisting write was refused for quota (the pruning of the quota
  handler may evict \<open>k\<close> itself). In every later state in which that entry is still in
  the map, \<open>get(k)\<close> at time \<open>t1\<close> returns \<open>v\<close> and changes nothing when
  \<open>t1 - t0 \<le> t\<close>; once \<open>t1 - t0 > t\<close> it returns absent and \<open>k\<close> is no longer a key of
  the map.
\<close>

theorem get_after_set:
  "map_of (cache (insert_entry s k v (Some t) t0)) k =
     Some \<lparr>data = v, timestamp = t0, ttl = t\<rparr> \<and>
   (\<not> quota_hit (storage s) \<longrightarrow>
      map_of (cache (snd (set_entry s k v (Some t) t0))) k =
        Some \<lparr>data = v, timestamp = t0, ttl = t\<rparr>) \<and>
   (\<forall>s1. map_of (cache s1) k = Some \<lparr>data = v, timestamp = t0, ttl = t\<rparr> \<longrightarrow>
      (t1 - t0 \<le> t \<longrightarrow> get s1 k t1 = (Inr (Some v), s1)) \<and>
      (t < t1 - t0 \<longrightarrow>
         fst (get s1 k t1) = Inr None \<and> k \<notin> fst ` set (cache (snd (get s1 k t1)))))"
proof (intro conjI allI impI)
  show "map_of (cache (insert_entry s k v (Some t) t0)) k =
           Some \<lparr>data = v, timestamp = t0, ttl = t\<rparr>"
    by (simp add: insert_entry_def Let_def update_conv')
next
  assume "\<not> quota_hit (storage s)"
  then show "map_of (cache (snd (set_entry s k v (Some t) t0))) k =
           Some \<lparr>data = v, timestamp = t0, ttl = t\<rparr>"
    by (simp add: set_entry_plain update_conv')
next
  fix s1 :: "'a SimpleCache"
  assume e: "map_of (cache s1) k = Some \<lparr>data = v, timestamp = t0, ttl = t\<rparr>"
  { assume "t1 - t0 \<le> t"
    with e show "get s1 k t1 = (Inr (Some v), s1)" by (simp add: get_def) }
  assume late: "t < t1 - t0"
  let ?d = "s1\<lparr>cache := AList.delete k (cache s1)\<rparr>"
  obtain r s2 where r: "saveToStorage ?d t1 = (r, s2)" by (cases "saveToStorage ?d t1")
  with saveToStorage_returns [of ?d t1] have rn: "r = None" by simp
  with e late r show "fst (get s1 k t1) = Inr None" by (simp add: get_def)
  have "set (cache s2) \<subseteq> set (AList.delete k (cache s1))"
    using saveToStorage_subset [of ?d t1] r by simp
  then have "k \<notin> fst ` set (cache s2)"
    by (auto simp: AList.delete_eq)
  with e late r rn show "k \<notin> fst ` set (cache (snd (get s1 k t1)))" by (simp add: get_def)
qed

lemma fresh_cache_eq:
  "fresh_cache = \<lparr>cache = [], config = demo_config, oldestKey = None, oldestTimestamp = None,
      storage = accepting_store\<rparr>"
  by (simp add: fresh_cache_def new_SimpleCache_def loadFromStorage_def loadFromStorage_try_def
      getItem_def accepting_store_def)

theorem get_after_set_witness:
  "\<not> quota_hit (storage fresh_cache) \<and>
   fst (get (snd (set_entry fresh_cache ''k'' 7 (Some 1000) 0)) ''k'' 500) = Inr (Some 7) \<and>
   fst (get (snd (set_entry fresh_cache ''k'' 7 (Some 1000) 0)) ''k'' 1500) = Inr None"
proof -
  have h: "\<not> quota_hit (storage fresh_cache)"
    by (simp add: fresh_cache_eq accepting_store_def quota_hit_def next_write_def)
  let ?s1 = "snd (set_entry fresh_cache ''k'' 7 (Some 1000) 0)"
  from get_after_set [of fresh_cache "''k''" 7 1000 0 500] h
  have a: "fst (get ?s1 ''k'' 500) = Inr (Some 7)" by simp
  from get_after_set [of fresh_cache "''k''" 7 1000 0 1500] h
  have b: "fst (get ?s1 ''k'' 1500) = Inr None" by simp
  from h a b show ?thesis by simp
qed

text \<open>
  The claim as written fails when the write of \<open>set\<close> is refused for quota. A cache with
  \<open>maxSize = 3\<close> holds \<open>a\<close> (the tracked oldest key) and \<open>b\<close>; the adapter refuses every
  further write. \<open>set(a, 7, 1000)\<close> at time 10 overwrites \<open>a\<close>, the pointer stays on
  \<open>a\<close>, the quota handler prunes to half of \<open>maxSize\<close> and deletes \<open>a\<close>: \<open>get(a)\<close> at
  time 11 returns absent although \<open>11 - 10 \<le> 1000\<close> and nothing came in between.
\<close>

theorem get_after_refused_set:
  "map fst (cache two_entry_cache) = [''a'', ''b''] \<and>
   quota_hit (storage two_entry_cache) \<and>
   fst (get (snd (set_entry two_entry_cache ''a'' 7 (Some 1000) 10)) ''a'' 11) = Inr None \<and>
   (11 :: int) - 10 \<le> 1000"
  by code_simp

subsection \<open>The size cap\<close>

text \<open>
  Claim C2 asks that the map never holds more than \<open>maxSize\<close> entries. The code breaks
  the cap on two paths. With \<open>maxSize = 2\<close>: \<open>set a\<close> (ttl 10) at time 0, \<open>set b\<close> at 1,
  \<open>get a\<close> at 20 (expired, removed by \<open>get\<close>, which leaves the oldest-key pointer on
  \<open>a\<close>), \<open>set c\<close> at 21 and \<open>set d\<close> at 22 leave three entries, because the eviction
  in \<open>set\<close> deletes the stale key \<open>a\<close>. And \<open>set\<close> of the empty key, then of \<open>b\<close> and
  \<open>c\<close>, leaves three entries, because the tracked oldest key \<open>''''\<close> is falsy and
  nothing is evicted.
\<close>

theorem size_cap_broken_after_lazy_expiry:
  "stats_size (getStats (snd (set_entry stale_pointer_cache ''d'' 4 None 22))) = 3 \<and>
   stats_maxSize (getStats (snd (set_entry stale_pointer_cache ''d'' 4 None 22))) = 2 \<and>
   stats_size (getStats
     (snd (set_entry (snd (set_entry (snd (set_entry fresh_cache '''' 1 None 0)) ''b'' 2 None 1))
        ''c'' 3 None 2))) = 3"
  by code_simp


subsection \<open>Overwriting at capacity\<close>

lemma length_update_present:
  "k \<in> fst ` set al \<Longrightarrow> length (AList.update k v al) = length al"
  by (induction al) auto

lemma length_update_absent:
  "k \<notin> fst ` set al \<Longrightarrow> length (AList.update k v al) = Suc (length al)"
  by (induction al) auto

text \<open>
  Claim C10, as amended. In a cache whose map holds exactly \<open>maxSize\<close> entries,
  overwriting a key \<open>k\<close> that is already present still evicts: when the tracked oldest
  key is a non-empty key of the map other than \<open>k\<close> and the persisting write is not
  refused for quota, \<open>set(k, v)\<close> removes that entry, keeps \<open>k\<close>, and leaves
  \<open>maxSize - 1\<close> entries.
\<close>

theorem overwrite_at_capacity_evicts:
  assumes "length (cache s) = maxSize (config s)"
    and "distinct (map fst (cache s))"
    and "k \<in> fst ` set (cache s)"
    and "oldestKey s = Some old" and "old \<noteq> []" and "old \<in> fst ` set (cache s)"
    and "old \<noteq> k"
    and "\<not> quota_hit (storage s)"
  shows "old \<notin> fst ` set (cache (snd (set_entry s k v ttl_arg now))) \<and>
         k \<in> fst ` set (cache (snd (set_entry s k v ttl_arg now))) \<and>
         Suc (length (cache (snd (set_entry s k v ttl_arg now)))) = maxSize (config s)"
proof -
  let ?e = "\<lparr>data = v, timestamp = now,
         ttl = (case ttl_arg of None \<Rightarrow> defaultTTL (config s) | Some t \<Rightarrow> t)\<rparr>"
  have c: "cache (snd (set_entry s k v ttl_arg now)) =
      AList.update k ?e (AList.delete old (cache s))"
    using assms by (simp add: set_entry_plain truthy_def)
  have kin: "k \<in> fst ` set (AList.delete old (cache s))"
    using assms(3,7) by (auto simp: AList.delete_eq image_iff)
  have "length (AList.update k ?e (AList.delete old (cache s))) =
      length (AList.delete old (cache s))"
    using kin by (rule length_update_present)
  moreover have "Suc (length (AList.delete old (cache s))) = length (cache s)"
    using assms(2,6) by (rule length_distinct_delete)
  moreover have "fst ` set (AList.update k ?e (AList.delete old (cache s))) =
      insert k (fst ` set (AList.delete old (cache s)))"
    by (simp add: AList.dom_update)
  moreover have "old \<notin> fst ` set (AList.delete old (cache s))"
    by (auto simp: AList.delete_eq)
  ultimately show ?thesis using c assms(1,7) by auto
qed

theorem overwrite_at_capacity_evicts_witness:
  "length (cache expired_entry_cache) = maxSize (config expired_entry_cache) \<and>
   ''a'' \<notin> fst ` set (cache (snd (set_entry
       (expired_entry_cache\<lparr>storage := accepting_store\<rparr>) ''b'' 5 None 3))) \<and>
   length (cache (snd (set_entry
       (expired_entry_cache\<lparr>storage := accepting_store\<rparr>) ''b'' 5 None 3))) = 1"
proof -
  let ?s = "expired_entry_cache\<lparr>storage := accepting_store\<rparr>"
  have a: "length (cache ?s) = maxSize (config ?s)" "distinct (map fst (cache ?s))"
    "''b'' \<in> fst ` set (cache ?s)" "oldestKey ?s = Some ''a''" "''a'' \<noteq> []"
    "''a'' \<in> fst ` set (cache ?s)" "''a'' \<noteq> ''b''" "\<not> quota_hit (storage ?s)"
    by (simp_all add: expired_entry_cache_def demo_config_def accepting_store_def
          quota_hit_def next_write_def)
  have m: "maxSize (config ?s) = 2" "length (cache expired_entry_cache) = maxSize (config expired_entry_cache)"
    by (simp_all add: expired_entry_cache_def demo_config_def)
  from overwrite_at_capacity_evicts [OF a, of 5 None 3] m show ?thesis by simp
qed

text \<open>
  The claim as written fails in two ways. Where the tracked oldest key is no longer in the
  map nothing is removed: after \<open>set a\<close>, \<open>set b\<close>, an expiring \<open>get a\<close> and \<open>set c\<close> the
  map holds \<open>b\<close> and \<open>c\<close> (\<open>maxSize = 2\<close>) and the pointer still names \<open>a\<close>; overwriting
  \<open>b\<close> leaves two entries. And where the persisting write is refused for quota, the quota
  handler prunes further: with \<open>maxSize = 3\<close> and the keys \<open>a\<close>, \<open>b\<close>, \<open>c\<close>, overwriting
  \<open>c\<close> evicts \<open>a\<close> and the handler then deletes \<open>b\<close>, which leaves one entry.
\<close>

theorem overwrite_at_capacity_other_outcomes:
  "length (cache stale_pointer_cache) = maxSize (config stale_pointer_cache) \<and>
   maxSize (config stale_pointer_cache) = 2 \<and>
   ''b'' \<in> fst ` set (cache stale_pointer_cache) \<and>
   oldestKey stale_pointer_cache = Some ''a'' \<and>
   length (cache (snd (set_entry stale_pointer_cache ''b'' 9 None 22))) = 2 \<and>
   length (cache three_entry_cache) = maxSize (config three_entry_cache) \<and>
   maxSize (config three_entry_cache) = 3 \<and>
   ''c'' \<in> fst ` set (cache three_entry_cache) \<and>
   oldestKey three_entry_cache = Some ''a'' \<and>
   length (cache (snd (set_entry three_entry_cache ''c'' 9 None 22))) = 1"
  by code_simp

subsection \<open>Quota failures\<close>

lemma writes_write_attempt:
  "available (storage x) \<Longrightarrow> writes (storage (write_attempt x)) = Suc (writes (storage x))"
  by (simp add: write_attempt_def writes_setItem)

lemma available_write_attempt [simp]:
  "available (storage (write_attempt x)) = available (storage x)"
  by (simp add: write_attempt_def)

lemma storage_remove_oldest_entries [simp]:
  "storage (remove_oldest_entries x) = storage x"
  using remove_oldest_entries_fields [of x] by simp

lemma config_remove_oldest_entries [simp]:
  "config (remove_oldest_entries x) = config x"
  using remove_oldest_entries_fields [of x] by simp

lemma saveToStorage_writes:
  assumes "quota_hit (storage s)"
  shows "writes (storage (snd (saveToStorage s now))) =
     writes (storage s) +
       (if expired_keys now (cache s) = [] then 2
        else if quota_hit (storage (write_attempt s)) then 4 else 3)"
proof -
  have av: "available (storage s)" using assms by (rule quota_hit_available)
  show ?thesis
    using assms av by (simp add: saveToStorage_shape writes_write_attempt)
qed

text \<open>
  Claim C8, as amended. When the write of \<open>saveToStorage\<close> is refused with a DOMException
  of code 22, the call does not throw; whatever the later writes answer, the map it leaves
  is the one obtained by removing every expired entry (recomputing the oldest key when one
  was removed) and then deleting the tracked oldest key, with a recomputation after each
  deletion, until the size is at most half of \<open>maxSize\<close> or no usable oldest key is
  tracked. The failing call retries its own write once after the pruning; but when
  \<open>cleanExpired\<close> removed an entry it persists the map itself first, with a quota handler
  of its own, so that the adapter sees two write attempts when nothing was expired and
  three or four otherwise.
\<close>

theorem quota_failure_prunes_and_retries:
  assumes "quota_hit (storage s)"
  shows "fst (saveToStorage s now) = None \<and>
         snd (saveToStorage s now) =
           (remove_oldest_entries (purge_expired now s))
             \<lparr>storage := storage (snd (saveToStorage s now))\<rparr> \<and>
         expired_keys now (cache (snd (saveToStorage s now))) = [] \<and>
         (2 * length (cache (snd (saveToStorage s now))) \<le> maxSize (config s) \<or>
          \<not> truthy (oldestKey (snd (saveToStorage s now)))) \<and>
         writes (storage (snd (saveToStorage s now))) =
           writes (storage s) +
             (if expired_keys now (cache s) = [] then 2
              else if quota_hit (storage (write_attempt s)) then 4 else 3)"
proof -
  from saveToStorage_memory [of s now] assms obtain st where
    st: "snd (saveToStorage s now) = (remove_oldest_entries (purge_expired now s))\<lparr>storage := st\<rparr>"
    by auto
  then have mem: "snd (saveToStorage s now) =
      (remove_oldest_entries (purge_expired now s))
        \<lparr>storage := storage (snd (saveToStorage s now))\<rparr>"
    by simp
  have clean: "expired_keys now (cache (snd (saveToStorage s now))) = []"
    using remove_oldest_entries_expired [of now "purge_expired now s"] by (simp add: st)
  have half: "2 * length (cache (snd (saveToStorage s now))) \<le> maxSize (config s) \<or>
      \<not> truthy (oldestKey (snd (saveToStorage s now)))"
    using remove_oldest_entries_post [of "purge_expired now s"] by (simp add: st)
  from mem clean half saveToStorage_writes [OF assms, of now] show ?thesis
    by (intro conjI) simp_all
qed

theorem quota_failure_prunes_and_retries_witness:
  "quota_hit (storage expired_entry_cache) \<and>
   cache (snd (saveToStorage expired_entry_cache 100)) =
     [(''b'', \<lparr>data = 2, timestamp = 1, ttl = 1000\<rparr>)] \<and>
   oldestKey (snd (saveToStorage expired_entry_cache 100)) = Some ''b''"
proof -
  have h: "quota_hit (storage expired_entry_cache)" by code_simp
  have "cache (remove_oldest_entries (purge_expired 100 expired_entry_cache)) =
      [(''b'', \<lparr>data = 2, timestamp = 1, ttl = 1000\<rparr>)]" by code_simp
  moreover have "oldestKey (remove_oldest_entries (purge_expired 100 expired_entry_cache)) =
      Some ''b''" by code_simp
  moreover from quota_failure_prunes_and_retries [OF h, of 100]
  have "snd (saveToStorage expired_entry_cache 100) =
      (remove_oldest_entries (purge_expired 100 expired_entry_cache))
        \<lparr>storage := storage (snd (saveToStorage expired_entry_cache 100))\<rparr>" by blast
  ultimately have
    "cache (snd (saveToStorage expired_entry_cache 100)) =
       [(''b'', \<lparr>data = 2, timestamp = 1, ttl = 1000\<rparr>)]"
    "oldestKey (snd (saveToStorage expired_entry_cache 100)) = Some ''b''"
    by (metis SimpleCache.select_convs(1) SimpleCache.surjective SimpleCache.update_convs(5),
        metis SimpleCache.select_convs(3) SimpleCache.surjective SimpleCache.update_convs(5))
  with h show ?thesis by simp
qed

text \<open>
  The claim as written has the write retried exactly once. With an adapter that refuses
  every write for quota and a map that holds an expired entry, one call of
  \<open>saveToStorage\<close> makes four write attempts: its own, the two of the persisting
  \<open>cleanExpired\<close>, and its retry.
\<close>

theorem quota_failure_four_write_attempts:
  "quota_hit (storage expired_entry_cache) \<and>
   writes (storage expired_entry_cache) = 0 \<and>
   writes (storage (snd (saveToStorage expired_entry_cache 100))) = 4"
  by code_simp

subsection \<open>Where the size cap holds\<close>

lemma scan_oldest_nonempty:
  assumes "xs \<noteq> []"
  shows "\<exists>k. fst (scan_oldest xs (None, None)) = Some k \<and> k \<in> fst ` set xs"
proof -
  from assms obtain key entry rest where xs: "xs = (key, entry) # rest"
    by (cases xs) auto
  have "scan_oldest xs (None, None) = scan_oldest rest (Some key, Some (timestamp entry))"
    by (simp add: xs less_num_def)
  with scan_oldest_key [of rest "Some key" "Some (timestamp entry)"] xs show ?thesis by auto
qed

lemma updateOldestKey_tracks:
  "if cache s = [] then oldestKey (updateOldestKey s) = None \<and>
       oldestTimestamp (updateOldestKey s) = None
   else (case oldestKey (updateOldestKey s) of None \<Rightarrow> False
         | Some k \<Rightarrow> k \<in> fst ` set (cache s))"
proof (cases "cache s = []")
  case True
  then show ?thesis by (simp add: updateOldestKey_eq)
next
  case False
  with scan_oldest_nonempty [OF False] show ?thesis by (force simp: updateOldestKey_eq)
qed

lemma well_tracked_pointer:
  assumes "well_tracked s" and "cache s \<noteq> []"
  obtains k where "oldestKey s = Some k" "k \<in> fst ` set (cache s)" "k \<noteq> []"
proof -
  from assms obtain k where k: "oldestKey s = Some k" "k \<in> fst ` set (cache s)"
    by (auto simp: well_tracked_def split: option.splits)
  from assms(1) have "[] \<notin> fst ` set (cache s)" by (simp add: well_tracked_def)
  with k(2) have "k \<noteq> []" by blast
  with k that show ?thesis by blast
qed

lemma well_tracked_storage [simp]: "well_tracked (s\<lparr>storage := st\<rparr>) = well_tracked s"
  by (simp add: well_tracked_def cong: option.case_cong)

lemma length_update_le: "length (AList.update k v al) \<le> Suc (length al)"
  by (induction al) auto

lemma well_tracked_filtered:
  assumes "well_tracked s"
  shows "well_tracked (updateOldestKey (s\<lparr>cache := filter P (cache s)\<rparr>))"
proof -
  let ?s' = "updateOldestKey (s\<lparr>cache := filter P (cache s)\<rparr>)"
  have c: "cache ?s' = filter P (cache s)" by simp
  have "length (filter P (cache s)) \<le> length (cache s)" by simp
  moreover have "length (cache s) \<le> maxSize (config s)"
    using assms by (simp add: well_tracked_def)
  ultimately have l: "length (filter P (cache s)) \<le> maxSize (config s)" by (rule le_trans)
  have d: "distinct (map fst (filter P (cache s)))"
    using assms by (simp add: well_tracked_def distinct_map_filter)
  have e: "[] \<notin> fst ` set (filter P (cache s))"
    using assms by (auto simp: well_tracked_def)
  have m: "0 < maxSize (config s)" using assms by (simp add: well_tracked_def)
  from updateOldestKey_tracks [of "s\<lparr>cache := filter P (cache s)\<rparr>"]
  have p: "if filter P (cache s) = [] then oldestTimestamp ?s' = None
      else (case oldestKey ?s' of None \<Rightarrow> False
            | Some k \<Rightarrow> k \<in> fst ` set (filter P (cache s)))"
    by (auto split: if_splits option.splits)
  show ?thesis
    unfolding well_tracked_def c using l d e m p by simp
qed

lemma delete_as_filter: "AList.delete k xs = filter (\<lambda>p. fst p \<noteq> k) xs"
  by (induction xs) auto

lemma well_tracked_evict:
  "well_tracked s \<Longrightarrow> well_tracked (updateOldestKey (s\<lparr>cache := AList.delete k (cache s)\<rparr>))"
  unfolding delete_as_filter by (rule well_tracked_filtered)

lemma well_tracked_remove_oldest_entries:
  "well_tracked s \<Longrightarrow> well_tracked (remove_oldest_entries s)"
proof (induction s rule: remove_oldest_entries.induct)
  case (1 s)
  show ?case
  proof (cases s rule: remove_oldest_entries_cases)
    case stop
    with "1.prems" show ?thesis by (simp add: remove_oldest_entries_done)
  next
    case (step k)
    with "1.IH" [of k] well_tracked_evict [OF "1.prems", of k] show ?thesis
      by (simp add: remove_oldest_entries_step)
  qed
qed

lemma well_tracked_purge_expired: "well_tracked s \<Longrightarrow> well_tracked (purge_expired now s)"
  unfolding purge_expired_def fold_delete_filter
  by (auto intro: well_tracked_filtered)

lemma well_tracked_saveToStorage:
  assumes "well_tracked s"
  shows "well_tracked (snd (saveToStorage s now))"
proof -
  from saveToStorage_memory [of s now] obtain st where
    "snd (saveToStorage s now) =
       (if quota_hit (storage s) then remove_oldest_entries (purge_expired now s) else s)
         \<lparr>storage := st\<rparr>" by blast
  with assms well_tracked_remove_oldest_entries [OF well_tracked_purge_expired [OF assms, of now]]
  show ?thesis by (simp split: if_splits)
qed

lemma well_tracked_insert_entry:
  assumes wt: "well_tracked s" and key: "key \<noteq> []"
  shows "well_tracked (insert_entry s key val ttl_arg now)"
proof -
  let ?e = "\<lparr>data = val, timestamp = now,
      ttl = (case ttl_arg of None \<Rightarrow> defaultTTL (config s) | Some t \<Rightarrow> t)\<rparr>"
  define s1 where "s1 = (if length (cache s) \<ge> maxSize (config s) then
      (if truthy (oldestKey s) then
         updateOldestKey (s\<lparr>cache := AList.delete (the (oldestKey s)) (cache s)\<rparr>)
       else s)
      else s)"
  have wt1: "well_tracked s1"
    using wt well_tracked_evict [OF wt] by (simp add: s1_def)
  have room: "length (cache s1) < maxSize (config s1)"
  proof (cases "length (cache s) \<ge> maxSize (config s)")
    case False
    then show ?thesis by (simp add: s1_def)
  next
    case True
    with wt have ne: "cache s \<noteq> []" by (auto simp: well_tracked_def)
    from well_tracked_pointer [OF wt ne] obtain k where
      k: "oldestKey s = Some k" "k \<in> fst ` set (cache s)" "k \<noteq> []" by blast
    with True wt length_delete_less [OF k(2)] show ?thesis
      by (simp add: s1_def truthy_def well_tracked_def)
  qed
  define s2 where "s2 = s1\<lparr>cache := AList.update key ?e (cache s1)\<rparr>"
  have cfg: "config s1 = config s" by (simp add: s1_def)
  have len2: "length (cache s2) \<le> maxSize (config s2)"
    using room length_update_le [of key ?e "cache s1"] by (simp add: s2_def)
  have d2: "distinct (map fst (cache s2))"
    using wt1 by (simp add: s2_def well_tracked_def distinct_update)
  have k2: "[] \<notin> fst ` set (cache s2)"
    using wt1 key by (auto simp: s2_def well_tracked_def dom_update)
  have in2: "key \<in> fst ` set (cache s2)" by (simp add: s2_def dom_update)
  have ptr: "less_num now (oldestTimestamp s2) \<or>
      (\<exists>k. oldestKey s2 = Some k \<and> k \<in> fst ` set (cache s2))"
  proof (cases "cache s1 = []")
    case True
    with wt1 show ?thesis by (simp add: s2_def well_tracked_def less_num_def)
  next
    case False
    from well_tracked_pointer [OF wt1 False] obtain k where
      "oldestKey s1 = Some k" "k \<in> fst ` set (cache s1)" by blast
    then show ?thesis by (auto simp: s2_def dom_update)
  qed
  have eq: "insert_entry s key val ttl_arg now =
      (if less_num now (oldestTimestamp s2) then
         s2\<lparr>oldestKey := Some key, oldestTimestamp := Some now\<rparr> else s2)"
    by (simp add: insert_entry_def Let_def s1_def s2_def)
  have pos: "0 < maxSize (config s2)" using wt cfg by (simp add: s2_def well_tracked_def)
  have ne2: "cache s2 \<noteq> []" using in2 by auto
  show ?thesis
    unfolding eq using len2 d2 k2 in2 ptr pos ne2
    by (force simp: well_tracked_def split: option.splits)
qed

lemma well_tracked_set_entry:
  "well_tracked s \<Longrightarrow> key \<noteq> [] \<Longrightarrow> well_tracked (snd (set_entry s key val ttl_arg now))"
  by (simp add: set_entry_def well_tracked_insert_entry well_tracked_saveToStorage)

lemma well_tracked_cleanExpired:
  assumes "well_tracked s"
  shows "well_tracked (snd (cleanExpired s now))"
proof (cases "expired_keys now (cache s) = []")
  case True
  with assms show ?thesis by (simp add: cleanExpired_none)
next
  case False
  then have "snd (cleanExpired s now) = snd (saveToStorage (purge_expired now s) now)"
    by (simp add: cleanExpired_some split: prod.splits option.splits)
  with well_tracked_saveToStorage [OF well_tracked_purge_expired [OF assms, of now]]
  show ?thesis by simp
qed

lemma well_tracked_clear:
  assumes "well_tracked s"
  shows "well_tracked (snd (clear s now))"
proof -
  have "well_tracked (s\<lparr>cache := [], oldestKey := None, oldestTimestamp := None\<rparr>)"
    using assms by (simp add: well_tracked_def)
  then show ?thesis unfolding clear_def by (rule well_tracked_saveToStorage)
qed

lemma well_tracked_delete:
  assumes wt: "well_tracked s"
  shows "well_tracked (snd (delete s key now))"
proof (cases "map_of (cache s) key")
  case None
  then have "key \<notin> fst ` set (cache s)" by (simp add: map_of_eq_None_iff)
  with None wt show ?thesis by (simp add: delete_def Let_def)
next
  case (Some entry)
  let ?s1 = "s\<lparr>cache := AList.delete key (cache s)\<rparr>"
  show ?thesis
  proof (cases "Some key = oldestKey s")
    case True
    obtain r s3 where r: "saveToStorage (updateOldestKey ?s1) now = (r, s3)"
      by (cases "saveToStorage (updateOldestKey ?s1) now")
    have "well_tracked (snd (saveToStorage (updateOldestKey ?s1) now))"
      using well_tracked_evict [OF wt, of key] by (rule well_tracked_saveToStorage)
    with r have "well_tracked s3" by simp
    with Some True r show ?thesis
      by (cases r) (simp_all add: delete_def Let_def)
  next
    case False
    from Some have ne: "cache s \<noteq> []" by auto
    from well_tracked_pointer [OF wt ne] obtain k where
      k: "oldestKey s = Some k" "k \<in> fst ` set (cache s)" by blast
    with False have "k \<noteq> key" by auto
    with k(2) have kin: "k \<in> fst ` set (AList.delete key (cache s))"
      by (auto simp: AList.delete_eq image_iff)
    then have ne': "AList.delete key (cache s) \<noteq> []" by auto
    have l: "length (AList.delete key (cache s)) \<le> maxSize (config s)"
      using wt length_delete_le [of key "cache s"] by (simp add: well_tracked_def)
    have d: "distinct (map fst (AList.delete key (cache s)))"
      using wt by (simp add: well_tracked_def distinct_delete)
    have e: "[] \<notin> fst ` set (AList.delete key (cache s))"
      using wt set_delete_subset [of key "cache s"] by (auto simp: well_tracked_def)
    have m: "0 < maxSize (config s)" using wt by (simp add: well_tracked_def)
    from k(1) kin ne' l d e m have "well_tracked ?s1"
      by (simp add: well_tracked_def)
    then have w: "well_tracked (snd (saveToStorage ?s1 now))"
      by (rule well_tracked_saveToStorage)
    obtain r s3 where r: "saveToStorage ?s1 now = (r, s3)"
      by (cases "saveToStorage ?s1 now")
    with w have "well_tracked s3" by simp
    with Some False r show ?thesis
      by (cases r) (simp_all add: delete_def Let_def)
  qed
qed

lemma well_tracked_apply:
  "well_tracked s \<Longrightarrow> names_key op \<Longrightarrow> well_tracked (apply_cache_operation op s)"
  by (cases op)
     (simp_all add: well_tracked_set_entry well_tracked_delete well_tracked_cleanExpired
        well_tracked_clear)

text \<open>
  The cap that claim C2 asks for holds on the other paths: from a state in which cap and
  pointer are in order (a new cache with \<open>maxSize \<ge> 1\<close> is one), any sequence of \<open>set\<close>
  with non-empty keys, \<open>delete\<close>, \<open>cleanExpired\<close> and \<open>clear\<close>, whatever the adapter
  answers, leaves at most \<open>maxSize\<close> entries.
\<close>

theorem size_cap_without_lazy_expiry:
  assumes "well_tracked s" and "list_all names_key ops"
  shows "well_tracked (fold apply_cache_operation ops s) \<and>
         length (cache (fold apply_cache_operation ops s)) \<le>
           maxSize (config (fold apply_cache_operation ops s))"
proof -
  have "well_tracked (fold apply_cache_operation ops s)"
    using assms by (induction ops arbitrary: s) (simp_all add: well_tracked_apply)
  then show ?thesis by (simp add: well_tracked_def)
qed

lemma scenario_B:
  "well_tracked fresh_cache \<and>
   stats_size (getStats (fold apply_cache_operation
     [Set_entry ''a'' 1 None 0, Set_entry ''b'' 2 None 1, Set_entry ''c'' 3 None 2]
     fresh_cache)) = 2"
  by code_simp

subsection \<open>Trimming\<close>

lemma dropWhile_unchanged: "xs = [] \<or> \<not> P (hd xs) \<Longrightarrow> dropWhile P xs = xs"
  by (cases xs) auto

lemma last_dropWhile: "dropWhile P xs \<noteq> [] \<Longrightarrow> last (dropWhile P xs) = last xs"
  by (induction xs) (auto split: if_splits)

lemma trim_ends:
  assumes "trim s \<noteq> []"
  shows "\<not> is_space (hd (trim s)) \<and> \<not> is_space (last (trim s))"
proof -
  let ?d = "dropWhile is_space s"
  let ?u = "dropWhile is_space (rev ?d)"
  have "trim s = rev ?u" by (simp only: trim_def)
  with assms have u: "?u \<noteq> []" by (metis rev.simps(1))
  then have d: "?d \<noteq> []" by (metis dropWhile.simps(1) rev.simps(1))
  have "hd (trim s) = last ?u" using u by (simp add: trim_def hd_rev)
  also have "\<dots> = last (rev ?d)" using u by (rule last_dropWhile)
  also have "\<dots> = hd ?d" using d by (simp add: last_rev)
  finally have "\<not> is_space (hd (trim s))" using d hd_dropWhile [of is_space s] by simp
  moreover have "last (trim s) = hd ?u" using u by (simp add: trim_def last_rev)
  then have "\<not> is_space (last (trim s))" using u hd_dropWhile [of is_space "rev ?d"] by simp
  ultimately show ?thesis by simp
qed

lemma trim_trim [simp]: "trim (trim s) = trim s"
proof (cases "trim s = []")
  case True
  have "trim [] = []" by (simp add: trim_def)
  with True show ?thesis by simp
next
  case False
  from trim_ends [OF False] have h: "\<not> is_space (hd (trim s))" and l: "\<not> is_space (last (trim s))"
    by simp_all
  have a: "dropWhile is_space (trim s) = trim s"
    using h by (intro dropWhile_unchanged) simp
  have "hd (rev (trim s)) = last (trim s)" using False by (simp add: hd_rev)
  with l have b: "dropWhile is_space (rev (trim s)) = rev (trim s)"
    by (intro dropWhile_unchanged) simp
  show ?thesis
    by (subst trim_def) (simp add: a b)
qed

subsection \<open>Deduplication\<close>














lemma set_sort_newest_first [simp]: "set (sort_newest_first xs) = set xs"
  by (simp add: sort_newest_first_def)

lemma length_sort_newest_first [simp]: "length (sort_newest_first xs) = length xs"
  by (simp add: sort_newest_first_def)




lemma deduplicateHistory_sorted:
  "sorted (map (\<lambda>x. - item_timestamp x) (deduplicateHistory xs))"
  by (simp add: deduplicateHistory_def sort_newest_first_def)

lemma deduplicateHistory_Nil [simp]: "deduplicateHistory [] = []"
  by (simp add: deduplicateHistory_def sort_newest_first_def)

subsection \<open>Loading\<close>

lemma validateHistoryArray_other [simp]:
  "validateHistoryArray Malformed_json = []"
  "validateHistoryArray Json_null = []"
  "validateHistoryArray (Json_other len) = []"
  by (simp_all add: validateHistoryArray_def)

lemma getHistory_result:
  "fst (getHistory js st) = Inr (deduplicateHistory (stored_history st))"
  by (auto simp: getHistory_def getHistory_try_def stored_history_def Let_def
      split: sum.splits option.splits json.splits prod.splits)


lemma getHistory_no_throw [simp]: "getHistory js st \<noteq> (Inl e, st')"
  using getHistory_result [of js st] by (metis fst_conv sum.distinct(1))

lemma load_eq: "load js st = deduplicateHistory (stored_history st)"
  by (simp add: load_def getHistory_result)

subsection \<open>What loading returns\<close>





subsection \<open>Rejected candidates\<close>



subsection \<open>Searching\<close>



subsection \<open>No exception leaves the history store\<close>









subsection \<open>An adapter that refuses every write\<close>

lemma removeItem_fields [simp]:
  "policy (snd (removeItem st k)) = policy st"
  "available (snd (removeItem st k)) = available st"
  "writes (snd (removeItem st k)) = writes st"
  by (simp_all add: removeItem_def)

lemma writes_setItem_field [simp]:
  "available st \<Longrightarrow> writes (snd (setItem st k v)) = Suc (writes st)"
  by (simp add: writes_setItem)


lemma always_quota_cong: "policy st' = policy st \<Longrightarrow> always_quota st' = always_quota st"
  by (simp add: always_quota_def)



lemma SecurityError_not_quota [simp]: "\<not> isQuotaExceededError SecurityError"
  by (simp add: isQuotaExceededError_def SecurityError_def)





subsection \<open>Pruning to the budgets\<close>

lemma cleanup_loop_shape:
  "\<exists>ys. cleanup_loop js xs cleaned tot = cleaned @ ys \<and> set ys \<subseteq> set xs \<and>
        (distinct (map g xs) \<longrightarrow> distinct (map g ys))"
proof (induction xs arbitrary: cleaned tot)
  case Nil
  show ?case by simp
next
  case (Cons item rest)
  let ?sz = "estimateItemSize js item"
  consider (skip) "?sz > MAX_ITEM_SIZE"
    | (stop) "\<not> ?sz > MAX_ITEM_SIZE"
        "(tot + ?sz > MAX_TOTAL_SIZE \<and> length cleaned > 0) \<or> length cleaned \<ge> MAX_HISTORY_ITEMS"
    | (push) "\<not> ?sz > MAX_ITEM_SIZE"
        "\<not> (tot + ?sz > MAX_TOTAL_SIZE \<and> length cleaned > 0)"
        "\<not> length cleaned \<ge> MAX_HISTORY_ITEMS"
    by blast
  then show ?case
  proof cases
    case skip
    from Cons.IH [of cleaned tot] obtain ys where
      "cleanup_loop js rest cleaned tot = cleaned @ ys" "set ys \<subseteq> set rest"
      "distinct (map g rest) \<longrightarrow> distinct (map g ys)" by blast
    with skip show ?thesis by (intro exI [of _ ys]) auto
  next
    case stop
    then show ?thesis by (intro exI [of _ "[]"]) (auto simp: Let_def)
  next
    case push
    from Cons.IH [of "cleaned @ [item]" "tot + ?sz"] obtain ys where ys:
      "cleanup_loop js rest (cleaned @ [item]) (tot + ?sz) = (cleaned @ [item]) @ ys"
      "set ys \<subseteq> set rest" "distinct (map g rest) \<longrightarrow> distinct (map g ys)" by blast
    have "cleanup_loop js (item # rest) cleaned tot = cleaned @ (item # ys)"
      using push ys(1) by (simp add: Let_def)
    moreover have "set (item # ys) \<subseteq> set (item # rest)" using ys(2) by auto
    moreover have "distinct (map g (item # rest)) \<longrightarrow> distinct (map g (item # ys))"
      using ys(2,3) by auto
    ultimately show ?thesis by blast
  qed
qed

lemma cleanup_loop_budget:
  assumes "length cleaned \<le> MAX_HISTORY_ITEMS"
    and "tot = total_bytes js cleaned"
    and "tot \<le> MAX_TOTAL_SIZE"
  shows "length (cleanup_loop js xs cleaned tot) \<le> MAX_HISTORY_ITEMS \<and>
         total_bytes js (cleanup_loop js xs cleaned tot) \<le> MAX_TOTAL_SIZE"
  using assms
proof (induction xs arbitrary: cleaned tot)
  case Nil
  then show ?case by simp
next
  case (Cons item rest)
  let ?sz = "estimateItemSize js item"
  consider (skip) "?sz > MAX_ITEM_SIZE"
    | (stop) "\<not> ?sz > MAX_ITEM_SIZE"
        "(tot + ?sz > MAX_TOTAL_SIZE \<and> length cleaned > 0) \<or> length cleaned \<ge> MAX_HISTORY_ITEMS"
    | (push) "\<not> ?sz > MAX_ITEM_SIZE"
        "\<not> (tot + ?sz > MAX_TOTAL_SIZE \<and> length cleaned > 0)"
        "\<not> length cleaned \<ge> MAX_HISTORY_ITEMS"
    by blast
  then show ?case
  proof cases
    case skip
    with Cons.IH [OF Cons.prems] show ?thesis by simp
  next
    case stop
    with Cons.prems show ?thesis by (auto simp: Let_def)
  next
    case push
    have a: "length (cleaned @ [item]) \<le> MAX_HISTORY_ITEMS" using push(3) by simp
    have b: "tot + ?sz = total_bytes js (cleaned @ [item])"
      using Cons.prems(2) by (simp add: total_bytes_def)
    have c: "tot + ?sz \<le> MAX_TOTAL_SIZE"
    proof (cases "length cleaned > 0")
      case True
      with push(2) show ?thesis by simp
    next
      case False
      then have "cleaned = []" by simp
      with Cons.prems(2) have "tot = 0" by (simp add: total_bytes_def)
      with push(1) show ?thesis by (simp add: MAX_ITEM_SIZE_def MAX_TOTAL_SIZE_def)
    qed
    have "cleanup_loop js (item # rest) cleaned tot =
        cleanup_loop js rest (cleaned @ [item]) (tot + ?sz)"
      using push by (auto simp: Let_def)
    with Cons.IH [OF a b c] show ?thesis by simp
  qed
qed

lemma cleanupOldItems_budget:
  "length (cleanupOldItems js xs) \<le> MAX_HISTORY_ITEMS \<and>
   total_bytes js (cleanupOldItems js xs) \<le> MAX_TOTAL_SIZE"
  unfolding cleanupOldItems_def
  by (rule cleanup_loop_budget) (simp_all add: total_bytes_def)

lemma cleanupOldItems_subset: "set (cleanupOldItems js xs) \<subseteq> set xs"
  using cleanup_loop_shape [of js "sort_newest_first xs" "[]" 0 id]
  by (auto simp: cleanupOldItems_def)




subsection \<open>Saving over an equal input\<close>




lemma validateHistoryArray_valid [simp]:
  "validateHistoryArray (Json_array (map Valid h)) = h"
  by (induction h) (auto simp: validateHistoryArray_def validateSavedComparison_def)






lemma order_store_eq:
  "order_store =
     \<lparr>items = [(STORAGE_KEY, stringify demo_serializer
         [new_comparison 1 ''1-a'' ''Order 123'' 10 None None])],
      available = True, policy = (\<lambda>n. None), writes = 1\<rparr>"
  by (simp add: order_store_def saveComparison_def saveComparison_try_def Let_def
      new_comparison_def trim_def is_space_def estimateItemSize_def demo_serializer_def
      MAX_ITEM_SIZE_def MAX_TOTAL_SIZE_def MAX_HISTORY_ITEMS_def getHistory_def
      getHistory_try_def getItem_def accepting_store_def cleanupOldItems_def
      sort_newest_first_def stringify_def getTotalStorageSize_def getStorageSize_def
      setItem_def STORAGE_KEY_def)

lemma order_store_loaded:
  "getHistory demo_serializer order_store =
     (Inr [new_comparison 1 ''1-a'' ''Order 123'' 10 None None], order_store)"
  by (simp add: order_store_eq getHistory_def getHistory_try_def getItem_def stringify_def
      demo_serializer_def new_comparison_def trim_def is_space_def deduplicateHistory_def
      keep_most_recent_def sort_newest_first_def validateHistoryArray_def
      validateSavedComparison_def normalized_def toLowerCase_def lower_char_def)



subsection \<open>What the operations leave in the store\<close>

lemma stored_history_setItem:
  "stored_history (snd (setItem st STORAGE_KEY (stringify js W))) = stored_history st \<or>
   stored_history (snd (setItem st STORAGE_KEY (stringify js W))) = [] \<or>
   stored_history (snd (setItem st STORAGE_KEY (stringify js W))) = W"
  by (auto simp: setItem_def stored_history_def getItem_def update_conv' stringify_def
      split: option.splits)

lemma stored_history_removeItem:
  "stored_history (snd (removeItem st STORAGE_KEY)) = stored_history st \<or>
   stored_history (snd (removeItem st STORAGE_KEY)) = []"
  by (auto simp: removeItem_def stored_history_def getItem_def delete_conv')

lemma getHistory_state:
  "snd (getHistory js st) = st \<or>
   snd (getHistory js st) = snd (removeItem st STORAGE_KEY) \<or>
   snd (getHistory js st) = snd (setItem st STORAGE_KEY (stringify js (stored_history st)))"
  by (auto simp: getHistory_def getHistory_try_def stored_history_def Let_def
      split: sum.splits option.splits json.splits prod.splits)

lemma stored_history_getHistory:
  "stored_history (snd (getHistory js st)) = stored_history st \<or>
   stored_history (snd (getHistory js st)) = []"
  using getHistory_state [of js st] stored_history_setItem [of st js "stored_history st"]
    stored_history_removeItem [of st]
  by auto

subsection \<open>Lists that only shrink\<close>

lemma total_bytes_simps [simp]:
  "total_bytes js [] = 0"
  "total_bytes js (x # xs) = estimateItemSize js x + total_bytes js xs"
  "total_bytes js (xs @ ys) = total_bytes js xs + total_bytes js ys"
  by (simp_all add: total_bytes_def)

lemma update_values_bound:
  "length (AList.update k v al) \<le> Suc (length al) \<and>
   total_bytes js (map snd (AList.update k v al)) \<le> total_bytes js (map snd al) + estimateItemSize js v"
  by (induction al) auto

lemma keep_most_recent_bound:
  "length (keep_most_recent x seen) \<le> Suc (length seen) \<and>
   total_bytes js (map snd (keep_most_recent x seen)) \<le>
     total_bytes js (map snd seen) + estimateItemSize js x"
  using update_values_bound [of "normalized x" x seen js]
  by (auto simp: keep_most_recent_def Let_def split: option.splits)

lemma fold_keep_bound:
  "length (fold keep_most_recent xs seen) \<le> length seen + length xs \<and>
   total_bytes js (map snd (fold keep_most_recent xs seen)) \<le>
     total_bytes js (map snd seen) + total_bytes js xs"
proof (induction xs arbitrary: seen)
  case Nil
  show ?case by simp
next
  case (Cons x xs)
  from Cons.IH [of "keep_most_recent x seen"] keep_most_recent_bound [of x seen js]
  show ?case by auto
qed

lemma total_bytes_sort [simp]: "total_bytes js (sort_newest_first xs) = total_bytes js xs"
proof -
  have "mset (map (estimateItemSize js) (sort_newest_first xs)) = mset (map (estimateItemSize js) xs)"
    by (simp add: sort_newest_first_def)
  then have "sum_mset (mset (map (estimateItemSize js) (sort_newest_first xs))) =
      sum_mset (mset (map (estimateItemSize js) xs))" by simp
  then show ?thesis by (simp only: sum_mset_sum_list total_bytes_def)
qed

lemma shrinks_deduplicateHistory: "shrinks js (deduplicateHistory xs) xs"
  using fold_keep_bound [of xs "[]" js]
  by (simp add: shrinks_def deduplicateHistory_def)

lemma shrinks_filter: "shrinks js (filter p xs) xs"
  by (induction xs) (auto simp: shrinks_def le_SucI)

lemma shrinks_trans: "shrinks js zs ys \<Longrightarrow> shrinks js ys xs \<Longrightarrow> shrinks js zs xs"
  by (auto simp: shrinks_def)

lemma downward_budget_ok: "downward js (budget_ok js)"
  by (auto simp: downward_def budget_ok_def shrinks_def)

lemma downward_count: "downward js (\<lambda>xs. length xs \<le> MAX_HISTORY_ITEMS)"
  by (auto simp: downward_def budget_ok_def shrinks_def)

lemma downward_Nil: "downward js P \<Longrightarrow> P []"
  by (simp add: downward_def)

lemma downward_shrinks: "downward js P \<Longrightarrow> P xs \<Longrightarrow> shrinks js ys xs \<Longrightarrow> P ys"
  by (auto simp: downward_def)

lemma downward_budget: "downward js P \<Longrightarrow> budget_ok js xs \<Longrightarrow> P xs"
  by (auto simp: downward_def)

subsection \<open>Each operation keeps a downward-closed property of the stored list\<close>

lemma keeps_setItem:
  assumes "downward js P" and "P (stored_history st)" and "P W"
  shows "P (stored_history (snd (setItem st STORAGE_KEY (stringify js W))))"
  using stored_history_setItem [of st js W] assms downward_Nil [OF assms(1)] by auto

lemma keeps_removeItem:
  assumes "downward js P" and "P (stored_history st)"
  shows "P (stored_history (snd (removeItem st STORAGE_KEY)))"
  using stored_history_removeItem [of st] assms downward_Nil [OF assms(1)] by auto

lemma keeps_getHistory:
  assumes "downward js P" and "P (stored_history st)"
  shows "P (stored_history (snd (getHistory js st)))"
  using stored_history_getHistory [of js st] assms downward_Nil [OF assms(1)] by auto

lemma getHistory_pair:
  "getHistory js st = (Inr (deduplicateHistory (stored_history st)), snd (getHistory js st))"
  using getHistory_result [of js st] by (cases "getHistory js st") simp

lemma keeps_write_then_retry:
  assumes dw: "downward js P" and p: "P (stored_history st1)" and w: "budget_ok js W"
  shows "P (stored_history (snd
     (case setItem st1 STORAGE_KEY (stringify js W) of
        (None, st2) \<Rightarrow> (Inr (Some saved), st2)
      | (Some error, st2) \<Rightarrow> retry_after_quota js st2 error h saved)))"
proof -
  obtain r st2 where s: "setItem st1 STORAGE_KEY (stringify js W) = (r, st2)"
    by (cases "setItem st1 STORAGE_KEY (stringify js W)")
  have p2: "P (stored_history st2)"
    using keeps_setItem [OF dw p downward_budget [OF dw w]] s by simp
  show ?thesis
  proof (cases r)
    case None
    with s p2 show ?thesis by simp
  next
    case (Some error)
    let ?h1 = "cleanupOldItems js (take (floor_times (length h) AGGRESSIVE_PRUNING_RATIO) h)"
    have "budget_ok js ?h1" using cleanupOldItems_budget [of js] by (simp add: budget_ok_def)
    then have "P (stored_history (snd (setItem st2 STORAGE_KEY (stringify js ?h1))))"
      using keeps_setItem [OF dw p2] downward_budget [OF dw] by blast
    with s Some p2 show ?thesis
      by (auto simp: retry_after_quota_def Let_def split: prod.splits option.splits)
  qed
qed

lemma keeps_saveComparison:
  assumes dw: "downward js P" and p: "P (stored_history st)"
  shows "P (stored_history (snd (saveComparison js st now new_id input res tgs nts)))"
proof -
  let ?saved = "new_comparison now new_id input res tgs nts"
  let ?st1 = "snd (getHistory js st)"
  have p1: "P (stored_history ?st1)" using dw p by (rule keeps_getHistory)
  have b: "\<And>xs. budget_ok js (cleanupOldItems js xs)"
    using cleanupOldItems_budget [of js] by (simp add: budget_ok_def)
  note k = keeps_write_then_retry [OF dw p1 b]
  show ?thesis
  proof (cases "inputText ?saved = [] \<or> estimateItemSize js ?saved > MAX_ITEM_SIZE")
    case True
    then have "saveComparison_try js st now new_id input res tgs nts = (Inr None, st)"
      by (auto simp: saveComparison_try_def Let_def)
    with p show ?thesis by (simp add: saveComparison_def)
  next
    case False
    have "snd (saveComparison js st now new_id input res tgs nts) =
        snd (saveComparison_try js st now new_id input res tgs nts)"
      by (simp add: saveComparison_def split: prod.splits sum.splits)
    also have "P (stored_history (snd (saveComparison_try js st now new_id input res tgs nts)))"
      using False
      by (subst saveComparison_try_def, subst getHistory_pair)
         (simp add: Let_def not_less k)
    finally show ?thesis .
  qed
qed

lemma keeps_deleteComparison:
  assumes dw: "downward js P" and p: "P (stored_history st)"
  shows "P (stored_history (snd (deleteComparison js st ident)))"
proof -
  let ?h = "deduplicateHistory (stored_history st)"
  let ?f = "filter (\<lambda>item. item_id item \<noteq> ident) ?h"
  let ?st1 = "snd (getHistory js st)"
  have p1: "P (stored_history ?st1)" using dw p by (rule keeps_getHistory)
  have "shrinks js ?f (stored_history st)"
    using shrinks_filter shrinks_deduplicateHistory by (rule shrinks_trans)
  with dw p have pf: "P ?f" by (rule downward_shrinks)
  have "P (stored_history (snd (setItem ?st1 STORAGE_KEY (stringify js ?f))))"
    using dw p1 pf by (rule keeps_setItem)
  with p1 show ?thesis
    by (subst deleteComparison_def, subst getHistory_pair)
       (auto simp: Let_def split: prod.splits option.splits)
qed

lemma length_by_id_fold:
  fixes xs :: "'r SavedComparison list"
  shows "length (fold (\<lambda>item m. AList.update (item_id item) item m) xs m0)
     \<le> length m0 + length xs"
proof (induction xs arbitrary: m0)
  case Nil
  show ?case by simp
next
  case (Cons x xs)
  from Cons.IH [of "AList.update (item_id x) x m0"] length_update_le [of "item_id x" x m0]
  show ?case by auto
qed

lemma keeps_count_updateComparison:
  assumes p: "length (stored_history st) \<le> MAX_HISTORY_ITEMS"
  shows "length (stored_history (snd (updateComparison js st ident u))) \<le> MAX_HISTORY_ITEMS"
proof -
  let ?P = "\<lambda>xs :: 'a SavedComparison list. length xs \<le> MAX_HISTORY_ITEMS"
  let ?h = "deduplicateHistory (stored_history st)"
  let ?st1 = "snd (getHistory js st)"
  have dw: "downward js ?P" by (rule downward_count)
  have p1: "?P (stored_history ?st1)" using dw p by (rule keeps_getHistory)
  have lh: "length (by_id ?h) \<le> length (stored_history st)"
    using length_by_id_fold [of ?h "[]"] shrinks_deduplicateHistory [of js "stored_history st"]
    by (simp add: by_id_def shrinks_def)
  have w: "\<And>existing. map_of (by_id ?h) ident = Some existing \<Longrightarrow>
      ?P (map snd (AList.update ident (apply_updates existing u) (by_id ?h)))"
  proof -
    fix existing
    assume "map_of (by_id ?h) ident = Some existing"
    then have "ident \<in> fst ` set (by_id ?h)"
      by (metis domI dom_map_of_conv_image_fst)
    then have "length (AList.update ident (apply_updates existing u) (by_id ?h)) =
        length (by_id ?h)" by (rule length_update_present)
    with lh p show "?P (map snd (AList.update ident (apply_updates existing u) (by_id ?h)))"
      by simp
  qed
  have "\<And>existing. map_of (by_id ?h) ident = Some existing \<Longrightarrow>
      ?P (stored_history (snd (setItem ?st1 STORAGE_KEY
        (stringify js (map snd (AList.update ident (apply_updates existing u) (by_id ?h)))))))"
    using keeps_setItem [OF dw p1] w by blast
  with p1 show ?thesis
    by (subst updateComparison_def, subst getHistory_pair)
       (auto simp: Let_def split: prod.splits option.splits)
qed

lemma snd_readers:
  "snd (getComparisonById js st ident) = snd (getHistory js st)"
  "snd (searchHistory js st query) = snd (getHistory js st)"
  "snd (filterByTags js st wanted) = snd (getHistory js st)"
  "snd (getHistoryStats js st) = snd (getHistory js st)"
  by (simp_all add: getComparisonById_def searchHistory_def filterByTags_def
      getHistoryStats_def Let_def split: prod.splits sum.splits)

lemma snd_clearHistory: "snd (clearHistory st) = snd (removeItem st STORAGE_KEY)"
  by (simp add: clearHistory_def split: prod.splits)

lemma keeps_apply_operation:
  assumes dw: "downward js P" and p: "P (stored_history st)" and "\<not> is_update op"
  shows "P (stored_history (apply_operation js op st))"
  using assms
  by (cases op)
     (simp_all add: keeps_saveComparison keeps_getHistory keeps_deleteComparison
        keeps_removeItem snd_readers snd_clearHistory)

lemma keeps_count_apply_operation:
  assumes p: "length (stored_history st) \<le> MAX_HISTORY_ITEMS"
  shows "length (stored_history (apply_operation js op st)) \<le> MAX_HISTORY_ITEMS"
proof (cases "is_update op")
  case True
  then obtain ident u where "op = Update ident u" by (cases op) auto
  with p show ?thesis by (simp add: keeps_count_updateComparison)
next
  case False
  with keeps_apply_operation [OF downward_count, of st op js] p show ?thesis by simp
qed

lemma run_count:
  "length (stored_history st) \<le> MAX_HISTORY_ITEMS \<Longrightarrow>
   length (stored_history (run js ops st)) \<le> MAX_HISTORY_ITEMS"
  unfolding run_def
  by (induction ops arbitrary: st) (simp_all add: keeps_count_apply_operation)

lemma run_budget:
  "budget_ok js (stored_history st) \<Longrightarrow> \<not> list_ex is_update ops \<Longrightarrow>
   budget_ok js (stored_history (run js ops st))"
  unfolding run_def
  by (induction ops arbitrary: st)
     (simp_all add: keeps_apply_operation [OF downward_budget_ok])

text \<open>
  The budgets that do hold. Start from a store whose history is empty and apply any
  sequence of public operations (save, load, lookup, delete, update, search, filter,
  clear, stats), whatever the adapter answers. The list \<open>load\<close> returns never has more
  than \<open>MAX_HISTORY_ITEMS\<close> items; and as long as no \<open>update\<close> occurs in the sequence,
  the serialized sizes of its items sum to at most \<open>MAX_TOTAL_SIZE\<close>.
\<close>

theorem budgets_of_reachable_states:
  assumes "stored_history st = []"
  shows "length (load js (run js ops st)) \<le> MAX_HISTORY_ITEMS \<and>
         (\<not> list_ex is_update ops \<longrightarrow>
            total_bytes js (load js (run js ops st)) \<le> MAX_TOTAL_SIZE)"
proof -
  have c: "length (stored_history (run js ops st)) \<le> MAX_HISTORY_ITEMS"
    using assms by (intro run_count) simp
  have "length (load js (run js ops st)) \<le> length (stored_history (run js ops st))"
    using shrinks_deduplicateHistory [of js "stored_history (run js ops st)"]
    by (simp add: load_eq shrinks_def)
  with c have count: "length (load js (run js ops st)) \<le> MAX_HISTORY_ITEMS" by simp
  have "\<not> list_ex is_update ops \<longrightarrow> total_bytes js (load js (run js ops st)) \<le> MAX_TOTAL_SIZE"
  proof
    assume "\<not> list_ex is_update ops"
    moreover have "budget_ok js (stored_history st)" using assms by (simp add: budget_ok_def)
    ultimately have "budget_ok js (stored_history (run js ops st))" by (intro run_budget)
    with shrinks_deduplicateHistory [of js "stored_history (run js ops st)"]
    show "total_bytes js (load js (run js ops st)) \<le> MAX_TOTAL_SIZE"
      by (simp add: load_eq shrinks_def budget_ok_def)
  qed
  with count show ?thesis by simp
qed

lemma accepting_store_empty: "stored_history (accepting_store :: nat stored_text localStorage) = []"
  by (simp add: stored_history_def getItem_def accepting_store_def)

lemma budgets_of_reachable_states_example:
  "stored_history (accepting_store :: nat stored_text localStorage) = [] \<and>
   \<not> list_ex is_update save_then_delete \<and>
   length (load demo_serializer (run demo_serializer save_then_delete accepting_store))
     \<le> MAX_HISTORY_ITEMS \<and>
   total_bytes demo_serializer
     (load demo_serializer (run demo_serializer save_then_delete accepting_store))
     \<le> MAX_TOTAL_SIZE"
proof -
  have u: "\<not> list_ex is_update save_then_delete" by (simp add: save_then_delete_def)
  from budgets_of_reachable_states [OF accepting_store_empty, of demo_serializer save_then_delete] u
  show ?thesis by (simp add: accepting_store_empty)
qed

lemma length_big_notes [simp]: "length big_notes = 10485760"
  by (simp add: big_notes_def)

lemma annotated_store:
  "run demo_serializer save_then_annotate accepting_store =
     \<lparr>items = [(STORAGE_KEY, stringify demo_serializer
         [(new_comparison 1 ''1-a'' ''Order 123'' 10 None None)\<lparr>item_notes := Some big_notes\<rparr>])],
      available = True, policy = (\<lambda>n. None), writes = 2\<rparr>"
proof -
  let ?c1 = "new_comparison 1 ''1-a'' ''Order 123'' 10 None None"
  have "run demo_serializer save_then_annotate accepting_store =
      snd (updateComparison demo_serializer order_store ''1-a''
        \<lparr>new_tags = None, new_notes = Some (Some big_notes)\<rparr>)"
    by (simp add: run_def save_then_annotate_def order_store_def)
  also have "\<dots> = snd (setItem order_store STORAGE_KEY
        (stringify demo_serializer [?c1\<lparr>item_notes := Some big_notes\<rparr>]))"
    by (simp add: updateComparison_def order_store_loaded by_id_def Let_def apply_updates_def
        new_comparison_def split: prod.splits option.splits)
  also have "\<dots> = \<lparr>items = [(STORAGE_KEY, stringify demo_serializer
         [?c1\<lparr>item_notes := Some big_notes\<rparr>])],
      available = True, policy = (\<lambda>n. None), writes = 2\<rparr>"
    by (simp add: setItem_def order_store_eq)
  finally show ?thesis .
qed

text \<open>
  Claim C4 asks that in every state reachable through save, delete, update and clear the
  loaded history has at most \<open>MAX_HISTORY_ITEMS\<close> items whose serialized sizes sum to at
  most \<open>MAX_TOTAL_SIZE\<close>. The count bound holds (\<open>budgets_of_reachable_states\<close>); the
  byte bound is broken by \<open>updateComparison\<close>, which writes the annotated list without
  the size check and the pruning that \<open>saveComparison\<close> applies: saving one comparison and
  then attaching notes of 10485760 bytes to it leaves, on an adapter that accepts the
  write, a history whose single item is larger than \<open>MAX_TOTAL_SIZE\<close>. The serializer of
  the example counts 100 bytes for an item plus the bytes of its text and notes.
\<close>

theorem update_exceeds_byte_budget:
  "stored_history (accepting_store :: nat stored_text localStorage) = [] \<and>
   length (load demo_serializer (run demo_serializer save_then_annotate accepting_store)) = 1 \<and>
   MAX_TOTAL_SIZE < total_bytes demo_serializer
     (load demo_serializer (run demo_serializer save_then_annotate accepting_store))"
proof -
  let ?c = "(new_comparison 1 ''1-a'' ''Order 123'' 10 None None)\<lparr>item_notes := Some big_notes\<rparr>"
  have "stored_history (run demo_serializer save_then_annotate accepting_store) = [?c]"
    by (simp only: annotated_store)
       (simp add: stored_history_def getItem_def stringify_def demo_serializer_def
          validateHistoryArray_def validateSavedComparison_def)
  then have "load demo_serializer (run demo_serializer save_then_annotate accepting_store) = [?c]"
    by (simp add: load_eq deduplicateHistory_def keep_most_recent_def sort_newest_first_def)
  then show ?thesis
    by (simp add: accepting_store_empty total_bytes_def estimateItemSize_def
        demo_serializer_def new_comparison_def MAX_TOTAL_SIZE_def)
qed

end
